theory Spec2Isabelle
  imports Main "HOL-Library.List_Lexorder" "HOL-Library.AList"
begin

section \<open>Python strings\<close>

text \<open>
  A Python \<open>str\<close> is a sequence of Unicode code points: group paths, item ids typed by the
  user and dialog input are lists of code points. File names are only compared and are
  kept as \<open>string\<close>. \<open>ustr\<close> writes an ASCII literal as code points.
\<close>

type_synonym ustr = "nat list"

definition ustr :: "string \<Rightarrow> ustr" where
  "ustr s = map of_char s"

text \<open>The delimiter of group paths, the backquote (U+0060).\<close>

definition delim :: nat where
  "delim = 96"

text \<open>\<open>s.split(d)\<close> with a one-character separator: never empty, \<open>''.split(d) == ['']\<close>.\<close>

fun split_on :: "'a \<Rightarrow> 'a list \<Rightarrow> 'a list list" where
  "split_on d [] = [[]]"
| "split_on d (c # cs) =
     (if c = d then [] # split_on d cs
      else (case split_on d cs of [] \<Rightarrow> [[c]] | w # ws \<Rightarrow> (c # w) # ws))"

text \<open>\<open>d.join(parts)\<close>.\<close>

fun join_with :: "'a \<Rightarrow> 'a list list \<Rightarrow> 'a list" where
  "join_with d [] = []"
| "join_with d [w] = w"
| "join_with d (w # ws) = w @ d # join_with d ws"

text \<open>\<open>group_path.split('`')[-1]\<close>, the display name of a group.\<close>

definition last_segment :: "ustr \<Rightarrow> ustr" where
  "last_segment p = last (split_on delim p)"

text \<open>
  \<open>str.isspace\<close>, which is also what \<open>str.strip()\<close> removes and what \<open>\s\<close> matches in
  a \<open>str\<close> pattern: the code points of Unicode white space.
\<close>

definition py_isspace :: "nat \<Rightarrow> bool" where
  "py_isspace c =
     ((9 \<le> c \<and> c \<le> 13) \<or> (28 \<le> c \<and> c \<le> 32) \<or> c = 133 \<or> c = 160 \<or> c = 5760
      \<or> (8192 \<le> c \<and> c \<le> 8202) \<or> c = 8232 \<or> c = 8233 \<or> c = 8239 \<or> c = 8287
      \<or> c = 12288)"

definition py_strip :: "ustr \<Rightarrow> ustr" where
  "py_strip s = rev (dropWhile py_isspace (rev (dropWhile py_isspace s)))"

text \<open>\<open>re.split(r'[,\s\n]+', s)\<close>: the pieces between maximal runs of commas and white space.\<close>

definition is_sep :: "nat \<Rightarrow> bool" where
  "is_sep c = (c = 44 \<or> py_isspace c)"

function re_split_seps :: "ustr \<Rightarrow> ustr list" where
  "re_split_seps s =
     (let w = takeWhile (\<lambda>c. \<not> is_sep c) s; r = dropWhile (\<lambda>c. \<not> is_sep c) s
      in if r = [] then [w] else w # re_split_seps (dropWhile is_sep r))"
  by pat_completeness auto
termination
proof (relation "measure length")
  show "wf (measure length)" by simp
next
  fix s :: ustr and w r
  assume r: "r = dropWhile (\<lambda>c. \<not> is_sep c) s" and ne: "r \<noteq> []"
  from ne obtain c cs where rc: "r = c # cs" by (cases r) auto
  have "dropWhile (\<lambda>c. \<not> is_sep c) s = c # cs" using rc r by simp
  then have "is_sep c" using hd_dropWhile [of "\<lambda>c. \<not> is_sep c" s] by simp
  then have "length (dropWhile is_sep r) \<le> length cs"
    using rc length_dropWhile_le [of is_sep cs] by simp
  moreover have "length r \<le> length s"
    using r length_dropWhile_le [of "\<lambda>c. \<not> is_sep c" s] by simp
  ultimately show "(dropWhile is_sep r, s) \<in> measure length"
    using rc by simp
qed

subsection \<open>\<open>str.lower()\<close>\<close>

text \<open>
  CPython lowers a string code point by code point with the full lower-case mapping of
  the Unicode Character Database, except for the capital sigma U+03A3, whose image
  depends on its neighbours (\<open>handle_capital_sigma\<close> in \<open>unicodeobject.c\<close>): it becomes
  the final sigma U+03C2 when a cased letter precedes it, over any number of
  case-ignorable code points, and no cased letter follows it in the same way; otherwise
  the small sigma U+03C3. The tables of the database are a parameter.
\<close>

record ucd =
  to_lower_full :: "nat \<Rightarrow> nat list"
  is_cased :: "nat \<Rightarrow> bool"
  is_case_ignorable :: "nat \<Rightarrow> bool"

definition handle_capital_sigma :: "ucd \<Rightarrow> ustr \<Rightarrow> ustr \<Rightarrow> nat" where
  "handle_capital_sigma u before after =
     (let b = dropWhile (is_case_ignorable u) before;
          final_sigma = (b \<noteq> [] \<and> is_cased u (hd b))
      in if final_sigma
         then (let a = dropWhile (is_case_ignorable u) after
               in if a = [] \<or> \<not> is_cased u (hd a) then 962 else 963)
         else 963)"

text \<open>\<open>before\<close> holds the code points already passed, nearest first.\<close>

fun lower_from :: "ucd \<Rightarrow> ustr \<Rightarrow> ustr \<Rightarrow> ustr" where
  "lower_from u before [] = []"
| "lower_from u before (c # cs) =
     (if c = 931 then [handle_capital_sigma u before cs] else to_lower_full u c)
     @ lower_from u (c # before) cs"

definition py_lower :: "ucd \<Rightarrow> ustr \<Rightarrow> ustr" where
  "py_lower u s = lower_from u [] s"

text \<open>
  An excerpt of the Unicode Character Database, exact on ASCII and on the three sigma
  code points: the lower-case mapping, \<open>Cased\<close> and \<open>Case_Ignorable\<close>
  (apostrophe, full stop, colon, circumflex and backquote in ASCII).
\<close>

definition ucd_excerpt :: ucd where
  "ucd_excerpt =
     \<lparr>to_lower_full = (\<lambda>c. if 65 \<le> c \<and> c \<le> 90 then [c + 32] else if c = 931 then [963] else [c]),
      is_cased = (\<lambda>c. (65 \<le> c \<and> c \<le> 90) \<or> (97 \<le> c \<and> c \<le> 122) \<or> c = 931 \<or> c = 962 \<or> c = 963),
      is_case_ignorable = (\<lambda>c. c = 39 \<or> c = 46 \<or> c = 58 \<or> c = 94 \<or> c = 96)\<rparr>"

text \<open>\<open>sorted(xs, key=lambda x: x.lower())\<close>: a stable sort on the lowered strings.\<close>

definition sorted_lower :: "ucd \<Rightarrow> ustr list \<Rightarrow> ustr list" where
  "sorted_lower u xs = sort_key (py_lower u) xs"

section \<open>The file and its reader (\<open>tsm_scraper.lua_parser\<close>)\<close>

text \<open>
  Modelled from the spec: the item-key codec. The module \<open>tsm_scraper.lua_parser\<close> is
  not among the sources. The spec names two textual variants of an item key, a
  classic-style one with zeroed sub-fields and a retail-style one with the identifier
  only, and says that any other text is "not an item key"; it does not give the
  patterns. A key is represented by what decoding it yields.
\<close>

datatype variant = Classic | Retail

datatype item_key = ItemKey variant int | OtherKey ustr

definition encode :: "int \<Rightarrow> variant \<Rightarrow> item_key" where
  "encode i v = ItemKey v i"

fun decode :: "item_key \<Rightarrow> (int \<times> variant) option" where
  "decode (ItemKey v i) = Some (i, v)"
| "decode (OtherKey t) = None"

definition get_item_id :: "item_key \<Rightarrow> int option" where
  "get_item_id k = map_option fst (decode k)"

text \<open>
  Modelled from the spec: the file. The spec's reader locates two sub-structures in the
  text, the groups section, whose keys are group paths, and the items section, whose
  entries tie an item key to the path of its group, and passes everything else through.
  The file is represented by these entries in file order; a file in which the reader
  finds no such structure is \<open>Opaque\<close>. \<open>None\<close> in the disk is a missing or unreadable
  file.
\<close>

record tsm_doc =
  doc_groups :: "ustr list"
  doc_items :: "(item_key \<times> ustr) list"

datatype file_content = Table tsm_doc | Opaque ustr

type_synonym disk = "string \<rightharpoonup> file_content"

datatype py_exn = Exception string

text \<open>
  Modelled from the spec: \<open>TSMLuaParser\<close>. \<open>load\<close> reads the file and answers with a
  boolean, failure for an unreadable file or one without recognizable structure; it
  has no raising branch. \<open>parse_items\<close> builds the ownership of each item key, the first
  occurrence winning; \<open>parse_groups\<close> lists the distinct group paths.
\<close>

record parser =
  p_path :: string
  raw :: "tsm_doc option"
  items :: "(item_key \<times> ustr) list"
  groups :: "ustr list"

definition TSMLuaParser :: "string \<Rightarrow> parser" where
  "TSMLuaParser path = \<lparr>p_path = path, raw = None, items = [], groups = []\<rparr>"

definition load :: "disk \<Rightarrow> parser \<Rightarrow> py_exn + (bool \<times> parser)" where
  "load d p =
     (case d (p_path p) of
        Some (Table doc) \<Rightarrow> Inr (True, p\<lparr>raw := Some doc\<rparr>)
      | Some (Opaque t) \<Rightarrow> Inr (False, p)
      | None \<Rightarrow> Inr (False, p))"

definition first_wins :: "('k \<times> 'v) list \<Rightarrow> ('k \<times> 'v) list" where
  "first_wins xs =
     foldl (\<lambda>acc kv. if fst kv \<in> fst ` set acc then acc else acc @ [kv]) [] xs"

definition parse_items :: "parser \<Rightarrow> parser" where
  "parse_items p =
     p\<lparr>items := (case raw p of None \<Rightarrow> [] | Some doc \<Rightarrow> first_wins (doc_items doc))\<rparr>"

definition parse_groups :: "parser \<Rightarrow> parser" where
  "parse_groups p =
     p\<lparr>groups := (case raw p of None \<Rightarrow> [] | Some doc \<Rightarrow> remdups (doc_groups doc))\<rparr>"

definition get_existing_item_ids :: "parser \<Rightarrow> int set" where
  "get_existing_item_ids p = set (List.map_filter (\<lambda>kg. get_item_id (fst kg)) (items p))"

definition get_items_by_group :: "parser \<Rightarrow> ustr \<Rightarrow> item_key list" where
  "get_items_by_group p g = map fst (filter (\<lambda>kg. snd kg = g) (items p))"

text \<open>
  Modelled from the spec: \<open>build_hierarchy\<close>. The parent of a path is the path without
  its last segment, the root \<open>''\<close> for a path of one segment; intermediate nodes that are
  not keys of the file are synthesized from the segments; the children of a parent are
  ordered case-insensitively by their last segment.
\<close>

definition parent_path :: "ustr \<Rightarrow> ustr" where
  "parent_path p = join_with delim (butlast (split_on delim p))"

definition path_and_ancestors :: "ustr \<Rightarrow> ustr list" where
  "path_and_ancestors p =
     (let segs = split_on delim p
      in map (\<lambda>n. join_with delim (take n segs)) [1 ..< Suc (length segs)])"

definition build_hierarchy :: "ucd \<Rightarrow> ustr list \<Rightarrow> (ustr \<rightharpoonup> ustr list)" where
  "build_hierarchy u paths =
     (\<lambda>parent.
        let nodes = remdups (concat (map path_and_ancestors paths));
            cs = filter (\<lambda>n. parent_path n = parent) nodes
        in if cs = [] then None else Some (sort_key (\<lambda>c. py_lower u (last_segment c)) cs))"

definition get_group_hierarchy :: "ucd \<Rightarrow> parser \<Rightarrow> (ustr \<rightharpoonup> ustr list)" where
  "get_group_hierarchy u p = build_hierarchy u (groups p)"

section \<open>The writer (\<open>tsm_scraper.lua_writer\<close>)\<close>

text \<open>
  Modelled from the spec: the result record of the writer operations. The module
  \<open>tsm_scraper.lua_writer\<close> is not among the sources. Each operation fills its own
  counters and the list of errors; the others stay 0.
\<close>

record op_result =
  added :: nat
  skipped :: nat
  removed :: nat
  not_found :: nat
  groups_updated :: nat
  items_updated :: nat
  subgroups_removed :: nat
  items_removed :: nat
  errors :: "string list"

definition no_result :: op_result where
  "no_result = \<lparr>added = 0, skipped = 0, removed = 0, not_found = 0, groups_updated = 0,
                 items_updated = 0, subgroups_removed = 0, items_removed = 0, errors = []\<rparr>"

text \<open>
  Modelled from the spec: the edits of the five operations (the state \<open>EDITING\<close>), on
  the entries of the file. Each takes the loaded file and returns the edited file and the
  counts.
\<close>

definition doc_item_ids :: "tsm_doc \<Rightarrow> int set" where
  "doc_item_ids doc = set (List.map_filter (\<lambda>kg. get_item_id (fst kg)) (doc_items doc))"

text \<open>
  \<open>remove_items\<close>: for each id both key variants are tried; every entry found is deleted
  and the id counts once; an id that matches no entry increments \<open>not_found\<close>.
\<close>

definition key_matches :: "int \<Rightarrow> item_key \<Rightarrow> bool" where
  "key_matches i k = (k = encode i Classic \<or> k = encode i Retail)"

definition remove_one :: "int \<Rightarrow> tsm_doc \<times> op_result \<Rightarrow> tsm_doc \<times> op_result" where
  "remove_one i s =
     (case s of (doc, r) \<Rightarrow>
        if list_ex (\<lambda>kg. key_matches i (fst kg)) (doc_items doc)
        then (doc\<lparr>doc_items := filter (\<lambda>kg. \<not> key_matches i (fst kg)) (doc_items doc)\<rparr>,
              r\<lparr>removed := removed r + 1\<rparr>)
        else (doc, r\<lparr>not_found := not_found r + 1\<rparr>))"

definition plan_remove_items :: "int list \<Rightarrow> tsm_doc \<Rightarrow> tsm_doc \<times> op_result" where
  "plan_remove_items ids doc = fold remove_one ids (doc, no_result)"

text \<open>
  \<open>add_groups\<close>: exactly the paths given; a path already present is skipped; a new
  entry goes to the end of the groups section.
\<close>

definition add_group_one :: "ustr \<Rightarrow> tsm_doc \<times> op_result \<Rightarrow> tsm_doc \<times> op_result" where
  "add_group_one g s =
     (case s of (doc, r) \<Rightarrow>
        if g \<in> set (doc_groups doc) then (doc, r\<lparr>skipped := skipped r + 1\<rparr>)
        else (doc\<lparr>doc_groups := doc_groups doc @ [g]\<rparr>, r\<lparr>added := added r + 1\<rparr>))"

definition plan_add_groups :: "ustr list \<Rightarrow> tsm_doc \<Rightarrow> tsm_doc \<times> op_result" where
  "plan_add_groups paths doc = fold add_group_one paths (doc, no_result)"

text \<open>
  \<open>add_items\<close>: an id already present is skipped; a new id is encoded in the variant
  detected in the file (that of its first item key; \<open>dflt\<close> for a file without one) and
  entered under its target group, which is created at the end of the groups section when
  it does not exist.
\<close>

definition detected_variant :: "variant \<Rightarrow> tsm_doc \<Rightarrow> variant" where
  "detected_variant dflt doc =
     (case List.map_filter (\<lambda>kg. decode (fst kg)) (doc_items doc) of
        [] \<Rightarrow> dflt | iv # _ \<Rightarrow> snd iv)"

definition add_item_one ::
  "variant \<Rightarrow> int \<times> ustr \<Rightarrow> tsm_doc \<times> op_result \<Rightarrow> tsm_doc \<times> op_result" where
  "add_item_one v ig s =
     (case s of (doc, r) \<Rightarrow>
        if fst ig \<in> doc_item_ids doc then (doc, r\<lparr>skipped := skipped r + 1\<rparr>)
        else (doc\<lparr>doc_groups := (if snd ig \<in> set (doc_groups doc) then doc_groups doc
                                    else doc_groups doc @ [snd ig]),
                  doc_items := doc_items doc @ [(encode (fst ig) v, snd ig)]\<rparr>,
              r\<lparr>added := added r + 1\<rparr>))"

definition plan_add_items ::
  "variant \<Rightarrow> (int \<times> ustr) list \<Rightarrow> tsm_doc \<Rightarrow> tsm_doc \<times> op_result" where
  "plan_add_items dflt m doc = fold (add_item_one (detected_variant dflt doc)) m (doc, no_result)"

text \<open>
  A descendant of \<open>old\<close> is a path whose segments start with all the segments of \<open>old\<close>
  and go on: the prefix is aligned with the segments, not a prefix of the raw string.
\<close>

definition is_descendant :: "ustr \<Rightarrow> ustr \<Rightarrow> bool" where
  "is_descendant old g =
     (let so = split_on delim old; sg = split_on delim g
      in length so < length sg \<and> take (length so) sg = so)"

definition affected :: "ustr \<Rightarrow> ustr \<Rightarrow> bool" where
  "affected old g = (g = old \<or> is_descendant old g)"

text \<open>
  \<open>rename_group\<close>: the entry of the group and of every descendant is rewritten, the
  segments of \<open>old\<close> replaced by those of \<open>new\<close> and the remaining segments kept; the
  group paths of the item entries follow.
\<close>

definition rewrite_path :: "ustr \<Rightarrow> ustr \<Rightarrow> ustr \<Rightarrow> ustr" where
  "rewrite_path old new g =
     (if affected old g
      then join_with delim
             (split_on delim new @ drop (length (split_on delim old)) (split_on delim g))
      else g)"

definition plan_rename_group :: "ustr \<Rightarrow> ustr \<Rightarrow> tsm_doc \<Rightarrow> tsm_doc \<times> op_result" where
  "plan_rename_group old new doc =
     (doc\<lparr>doc_groups := map (rewrite_path old new) (doc_groups doc),
          doc_items := map (\<lambda>kg. (fst kg, rewrite_path old new (snd kg))) (doc_items doc)\<rparr>,
      no_result\<lparr>groups_updated := length (filter (affected old) (doc_groups doc)),
                items_updated := length (filter (\<lambda>kg. affected old (snd kg)) (doc_items doc))\<rparr>)"

text \<open>
  \<open>delete_group\<close>: the entries of the group and of its descendants are removed; their
  items are removed with them, or keep their records and lose the group (the root path).
\<close>

definition plan_delete_group :: "ustr \<Rightarrow> bool \<Rightarrow> tsm_doc \<Rightarrow> tsm_doc \<times> op_result" where
  "plan_delete_group path delete_items doc =
     (doc\<lparr>doc_groups := filter (\<lambda>g. \<not> affected path g) (doc_groups doc),
          doc_items := (if delete_items
                        then filter (\<lambda>kg. \<not> affected path (snd kg)) (doc_items doc)
                        else map (\<lambda>kg. (fst kg, if affected path (snd kg) then [] else snd kg))
                               (doc_items doc))\<rparr>,
      no_result\<lparr>subgroups_removed := length (filter (is_descendant path) (doc_groups doc)),
                items_removed := (if delete_items
                                  then length (filter (\<lambda>kg. affected path (snd kg)) (doc_items doc))
                                  else 0)\<rparr>)"

text \<open>
  Modelled from the spec: the course of every mutating call,
  \<open>UNLOADED \<rightarrow> LOADED \<rightarrow> EDITING \<rightarrow> VALIDATED \<rightarrow> COMMITTED\<close>. The file is read afresh; the
  edit is computed in memory; the edited text is validated; a dry run stops there; the
  commit writes a backup of the file as it was, named after it with a time stamp, and
  then replaces the file in one step. A failed validation or backup ends the call with
  an error in the result and no write to the file; a failure of the final replacement
  is the one exception that reaches the caller. The balance check of the spec reads the
  text, which the model does not have: its verdict \<open>valid\<close> is a parameter, and so is
  the outcome of the two disk writes.
\<close>

record io_env =
  backup_ok :: bool
  replace_ok :: bool
  stamp :: string

definition backup_path :: "string \<Rightarrow> string \<Rightarrow> string" where
  "backup_path path ts = path @ ''.backup_'' @ ts"

datatype disk_op = WriteFile string file_content | ReplaceFile string file_content

fun apply_op :: "disk_op \<Rightarrow> disk \<Rightarrow> disk" where
  "apply_op (WriteFile p f) d = d(p \<mapsto> f)"
| "apply_op (ReplaceFile p f) d = d(p \<mapsto> f)"

definition run_ops :: "disk_op list \<Rightarrow> disk \<Rightarrow> disk" where
  "run_ops ops d = fold apply_op ops d"

definition writer_call ::
  "(tsm_doc \<Rightarrow> tsm_doc \<times> op_result) \<Rightarrow> (tsm_doc \<Rightarrow> bool) \<Rightarrow> bool \<Rightarrow> io_env \<Rightarrow> string \<Rightarrow> disk
     \<Rightarrow> disk_op list \<times> (py_exn + op_result)" where
  "writer_call plan valid dry_run io path d =
     (case d path of
        Some (Table doc) \<Rightarrow>
          (case plan doc of (doc', r) \<Rightarrow>
             if errors r \<noteq> [] then ([], Inr r)
             else if \<not> valid doc' then ([], Inr (r\<lparr>errors := [''validation failed'']\<rparr>))
             else if dry_run then ([], Inr r)
             else if \<not> backup_ok io then ([], Inr (r\<lparr>errors := [''backup failed'']\<rparr>))
             else if \<not> replace_ok io
               then ([WriteFile (backup_path path (stamp io)) (Table doc)],
                     Inl (Exception ''write failed''))
             else ([WriteFile (backup_path path (stamp io)) (Table doc),
                    ReplaceFile path (Table doc')], Inr r))
      | Some (Opaque t) \<Rightarrow> ([], Inr (no_result\<lparr>errors := [''load failed'']\<rparr>))
      | None \<Rightarrow> ([], Inr (no_result\<lparr>errors := [''load failed'']\<rparr>)))"

text \<open>The five mutating operations of \<open>TSMLuaWriter(path)\<close>.\<close>

datatype writer_op =
    AddItems "(int \<times> ustr) list"
  | RemoveItems "int list"
  | AddGroups "ustr list"
  | RenameGroup ustr ustr
  | DeleteGroup ustr bool

fun plan_of :: "variant \<Rightarrow> writer_op \<Rightarrow> tsm_doc \<Rightarrow> tsm_doc \<times> op_result" where
  "plan_of dflt (AddItems m) = plan_add_items dflt m"
| "plan_of dflt (RemoveItems ids) = plan_remove_items ids"
| "plan_of dflt (AddGroups paths) = plan_add_groups paths"
| "plan_of dflt (RenameGroup old new) = plan_rename_group old new"
| "plan_of dflt (DeleteGroup path delete_items) = plan_delete_group path delete_items"

text \<open>
  What the writer needs from outside a call: the default key variant, the verdict of
  the validation, and the outcome of the disk writes.
\<close>

record writer_env =
  default_variant :: variant
  valid :: "tsm_doc \<Rightarrow> bool"
  io :: io_env

definition writer_do ::
  "writer_env \<Rightarrow> writer_op \<Rightarrow> bool \<Rightarrow> string \<Rightarrow> disk \<Rightarrow> disk \<times> (py_exn + op_result)" where
  "writer_do w op dry_run path d =
     (case writer_call (plan_of (default_variant w) op) (valid w) dry_run (io w) path d of
        (ops, res) \<Rightarrow> (run_ops ops d, res))"

definition remove_items ::
  "writer_env \<Rightarrow> int list \<Rightarrow> bool \<Rightarrow> string \<Rightarrow> disk \<Rightarrow> disk \<times> (py_exn + op_result)" where
  "remove_items w ids dry_run path d = writer_do w (RemoveItems ids) dry_run path d"

definition add_groups ::
  "writer_env \<Rightarrow> ustr list \<Rightarrow> bool \<Rightarrow> string \<Rightarrow> disk \<Rightarrow> disk \<times> (py_exn + op_result)" where
  "add_groups w paths dry_run path d = writer_do w (AddGroups paths) dry_run path d"

definition add_items ::
  "writer_env \<Rightarrow> (int \<times> ustr) list \<Rightarrow> bool \<Rightarrow> string \<Rightarrow> disk \<Rightarrow> disk \<times> (py_exn + op_result)" where
  "add_items w m dry_run path d = writer_do w (AddItems m) dry_run path d"

definition rename_group ::
  "writer_env \<Rightarrow> ustr \<Rightarrow> ustr \<Rightarrow> string \<Rightarrow> disk \<Rightarrow> disk \<times> (py_exn + op_result)" where
  "rename_group w old new path d = writer_do w (RenameGroup old new) False path d"

definition delete_group ::
  "writer_env \<Rightarrow> ustr \<Rightarrow> bool \<Rightarrow> string \<Rightarrow> disk \<Rightarrow> disk \<times> (py_exn + op_result)" where
  "delete_group w g delete_items path d = writer_do w (DeleteGroup g delete_items) False path d"

section \<open>The configuration file of the GUI (\<open>gui_modern.py\<close>, \<open>save_config\<close>)\<close>

text \<open>
  \<open>self.config\<close> is the dictionary read from \<open>gui_config.json\<close>. The two keys that
  \<open>save_config\<close> touches are fields; a key that may be missing is an \<open>option\<close>
  (\<open>self.config.get("profiles", [])\<close>). The window geometry keys are not touched by
  \<open>save_config\<close> and are kept in one field.
\<close>

record gui_config =
  cfg_profiles :: "string list option"
  cfg_tsm_path :: "string option"
  cfg_window :: "(string \<times> int) list"

text \<open>
  The part of the application state that \<open>save_config\<close> reads and writes: the
  dictionary, the current \<open>self.tsm_path\<close>, and the content of the file at
  \<open>CONFIG_PATH\<close> (\<open>None\<close>: no file).
\<close>

record config_state =
  config :: gui_config
  tsm_path :: string
  config_file :: "gui_config option"

text \<open>
  The body of \<open>save_config\<close> is inside \<open>try: ... except: pass\<close>. Two calls in it
  can raise: \<open>CONFIG_PATH.parent.mkdir\<close>, the first statement, and
  \<open>open(CONFIG_PATH, 'w')\<close>, after \<open>self.config\<close> has been updated. Their outcome is
  an input of the model. A string is true in Python when it is not empty.
\<close>

definition save_config ::
  "bool \<Rightarrow> bool \<Rightarrow> 'a config_state_scheme \<Rightarrow> 'a config_state_scheme" where
  "save_config mkdir_ok open_ok st =
     (if \<not> mkdir_ok then st
      else
        let profiles = (case cfg_profiles (config st) of None \<Rightarrow> [] | Some ps \<Rightarrow> ps);
            profiles = (if tsm_path st \<noteq> [] \<and> tsm_path st \<notin> set profiles
                        then tsm_path st # profiles else profiles);
            profiles = take 5 profiles;
            cfg = (config st)\<lparr>cfg_profiles := Some profiles, cfg_tsm_path := Some (tsm_path st)\<rparr>
        in if open_ok then st\<lparr>config := cfg, config_file := Some cfg\<rparr>
           else st\<lparr>config := cfg\<rparr>)"

text \<open>The invariant of the persisted file: its profiles list, when it has one, has at most 5 entries.\<close>

definition persisted_bounded :: "gui_config option \<Rightarrow> bool" where
  "persisted_bounded f =
     (case f of None \<Rightarrow> True
      | Some c \<Rightarrow> (case cfg_profiles c of None \<Rightarrow> True | Some ps \<Rightarrow> length ps \<le> 5))"

text \<open>The list that \<open>save_config\<close> builds before it truncates.\<close>

definition with_current :: "string \<Rightarrow> string list \<Rightarrow> string list" where
  "with_current p ps = (if p \<noteq> [] \<and> p \<notin> set ps then p # ps else ps)"

section \<open>The application state and the handlers of \<open>gui_modern.py\<close>\<close>

text \<open>
  What the handlers show: a line of the log with its level, a label of a widget, a row
  of the groups panel. Texts are the templates of the source, in ASCII, without the
  values formatted into them.
\<close>

datatype level = Info | Success | Warning | Error | Cyan | Gray

datatype ui_out = Log level string | Label string level string

datatype panel_row =
    GroupRow ustr nat
  | ItemRow ustr ustr
  | MoreItems nat
  | PanelLabel level string

text \<open>Callbacks handed to \<open>after_idle\<close> and \<open>after\<close>: they run later, not inside the handler.\<close>

datatype callback =
    DoRefreshGroupsPanel
  | LoadTsmInfo
  | UpdateManualStatus
  | UpdateResultsWithCheckboxes
  | AutoSelectScrapeGroup
  | Configure string

text \<open>
  The calls a handler makes on its \<open>TSMLuaParser\<close>, in order, are recorded in the
  state, so that what is called after a failed \<open>load\<close> can be stated.
\<close>

datatype pcall = PLoad bool | PLoadRaised | PParseItems | PParseGroups

record scrape_entry =
  tsm_group :: ustr
  found :: nat
  new_ids :: "int list"

text \<open>
  The fields of \<open>TSMScraperApp\<close> that the handlers below read or write, and the disk
  with the TSM files. The application's own log file and configuration file live in its
  data directory and are not files of this disk; \<open>log\<close> also appends its line to the
  log file, inside \<open>try: ... except: pass\<close>, which is not followed here.
\<close>

record app = config_state +
  files :: disk
  existing_ids :: "int set"
  existing_groups :: "ustr set"
  current_parser :: "parser option"
  manual_add_ids :: "int list"
  manual_remove_ids :: "int list"
  remove_mode_var :: bool
  manual_id_entry :: ustr
  group_item_checkboxes :: "(ustr \<times> bool) list"
  group_expand_state :: "ustr \<rightharpoonup> bool"
  scrape_results :: "string \<rightharpoonup> scrape_entry"
  import_btn_enabled :: bool
  groups_panel :: "panel_row list"
  ui :: "ui_out list"
  pending :: "callback list"
  calls :: "pcall list"

text \<open>The fields as \<open>__init__\<close> sets them, before the layout is built.\<close>

definition app0 :: "gui_config \<Rightarrow> string \<Rightarrow> disk \<Rightarrow> app" where
  "app0 cfg path d =
     \<lparr>config = cfg, tsm_path = path, config_file = None, files = d, existing_ids = {},
      existing_groups = {}, current_parser = None, manual_add_ids = [],
      manual_remove_ids = [], remove_mode_var = False, manual_id_entry = [],
      group_item_checkboxes = [], group_expand_state = Map.empty,
      scrape_results = Map.empty, import_btn_enabled = False, groups_panel = [], ui = [],
      pending = [], calls = []\<rparr>"

text \<open>
  What a handler takes from outside the application: the Unicode tables behind
  \<open>str.lower\<close>, Python's \<open>int(...)\<close> on a string (\<open>None\<close>: \<open>ValueError\<close>), the
  environment of the writer, the recursion depth Python allows, and the two directions of
  the item-key codec on texts, whose patterns the spec does not give: the text of a key
  as the parser hands it out, and the key that \<open>get_item_id\<close> reads from a text.
\<close>

record gui_env =
  unicode :: ucd
  py_int :: "ustr \<Rightarrow> int option"
  writer :: writer_env
  recursion_limit :: nat
  key_text :: "item_key \<Rightarrow> ustr"
  text_key :: "ustr \<Rightarrow> item_key"

definition log :: "level \<Rightarrow> string \<Rightarrow> app \<Rightarrow> app" where
  "log lv msg st = st\<lparr>ui := ui st @ [Log lv msg]\<rparr>"

definition show_label :: "string \<Rightarrow> level \<Rightarrow> string \<Rightarrow> app \<Rightarrow> app" where
  "show_label w lv msg st = st\<lparr>ui := ui st @ [Label w lv msg]\<rparr>"

definition called :: "pcall list \<Rightarrow> app \<Rightarrow> app" where
  "called cs st = st\<lparr>calls := calls st @ cs\<rparr>"

definition after :: "callback \<Rightarrow> app \<Rightarrow> app" where
  "after cb st = st\<lparr>pending := pending st @ [cb]\<rparr>"

definition refresh_groups_panel :: "app \<Rightarrow> app" where
  "refresh_groups_panel st = after DoRefreshGroupsPanel st"

definition update_manual_status :: "app \<Rightarrow> app" where
  "update_manual_status st =
     (let st1 = show_label ''manual_status'' Info ''Added: {add_count}  |  Removed: {remove_count}'' st
      in if length (manual_add_ids st) > 0 \<or> length (manual_remove_ids st) > 0
         then st1\<lparr>import_btn_enabled := True\<rparr> else st1)"

subsection \<open>\<open>load_tsm_info\<close>\<close>

definition load_tsm_info :: "app \<Rightarrow> app" where
  "load_tsm_info st =
     (case load (files st) (TSMLuaParser (tsm_path st)) of
        Inr (True, p1) \<Rightarrow>
          let p2 = parse_items p1;
              p3 = parse_groups p2;
              st1 = called [PLoad True, PParseItems, PParseGroups] st;
              st2 = st1\<lparr>existing_ids := get_existing_item_ids p3,
                        existing_groups := set (groups p3)\<rparr>;
              st3 = show_label ''tsm_info'' Success ''{items} items, {groups} groups'' st2;
              st4 = log Success ''Loaded: {items} items, {groups} groups'' st3
          in refresh_groups_panel st4
      | Inr (False, p1) \<Rightarrow>
          log Error ''Failed to load TSM file''
            (show_label ''tsm_info'' Error ''Could not load file'' (called [PLoad False] st))
      | Inl e \<Rightarrow>
          log Error ''Error: {e}'' (show_label ''tsm_info'' Error ''Error'' (called [PLoadRaised] st)))"

subsection \<open>\<open>_do_refresh_groups_panel\<close>\<close>

text \<open>\<open>hierarchy.get(group_path, [])\<close>.\<close>

definition children_of :: "(ustr \<rightharpoonup> ustr list) \<Rightarrow> ustr \<Rightarrow> ustr list" where
  "children_of h g = (case h g of None \<Rightarrow> [] | Some cs \<Rightarrow> cs)"

text \<open>
  The children for which \<open>add_group_button\<close> calls itself, in the order of the calls:
  \<open>for child in sorted(children, key=lambda x: x.lower()): if child != group_path: ...\<close>;
  and the root groups, \<open>sorted(hierarchy.get('', []), key=lambda x: x.lower())\<close>.
\<close>

definition shown_children :: "ucd \<Rightarrow> (ustr \<rightharpoonup> ustr list) \<Rightarrow> ustr \<Rightarrow> ustr list" where
  "shown_children u h g = filter (\<lambda>c. c \<noteq> g) (sorted_lower u (children_of h g))"

definition root_groups :: "ucd \<Rightarrow> (ustr \<rightharpoonup> ustr list) \<Rightarrow> ustr list" where
  "root_groups u h = sorted_lower u (children_of h [])"

text \<open>
  \<open>add_group_button\<close>: the row of the group; when the group is expanded, the rows of
  the first 50 of its item keys, sorted as texts, and then its children, one level
  deeper, one after the other. The first argument is the depth of recursion left. The
  result is the rows built and whether the call returned: at depth 0 Python raises
  \<open>RecursionError\<close>, no further row is built, and the rows built so far stay.
\<close>

fun add_group_button ::
  "nat \<Rightarrow> (item_key \<Rightarrow> ustr) \<Rightarrow> ucd \<Rightarrow> (ustr \<rightharpoonup> bool) \<Rightarrow> (ustr \<rightharpoonup> ustr list) \<Rightarrow> parser
     \<Rightarrow> ustr \<Rightarrow> nat \<Rightarrow> panel_row list \<times> bool" where
  "add_group_button 0 kt u ex h p g indent = ([], False)"
| "add_group_button (Suc n) kt u ex h p g indent =
     (let item_count = (if g \<in> set (groups p) then length (get_items_by_group p g) else 0);
          is_expanded = (case ex g of None \<Rightarrow> False | Some b \<Rightarrow> b);
          its = map kt (get_items_by_group p g);
          item_rows = (if is_expanded \<and> item_count > 0
                       then map (ItemRow g) (take 50 (sort its))
                            @ (if length its > 50 then [MoreItems (length its - 50)] else [])
                       else []);
          children = (if is_expanded then shown_children u h g else [])
      in foldl (\<lambda>acc c. if snd acc
                         then (case add_group_button n kt u ex h p c (indent + 1) of
                                 (rs, ok) \<Rightarrow> (fst acc @ rs, ok))
                         else acc)
           (GroupRow g indent # item_rows, True) children)"

text \<open>
  The check boxes of the item rows: \<open>self.group_item_checkboxes[f"{group_path}|{item_key}"]\<close>,
  a dictionary in insertion order, each box unchecked when it is built.
\<close>

definition checkbox_key :: "ustr \<Rightarrow> ustr \<Rightarrow> ustr" where
  "checkbox_key g t = g @ [124] @ t"

definition checkboxes_of :: "panel_row list \<Rightarrow> (ustr \<times> bool) list" where
  "checkboxes_of rows =
     fold (\<lambda>r acc. case r of ItemRow g t \<Rightarrow> AList.update (checkbox_key g t) False acc
                    | _ \<Rightarrow> acc) rows []"

definition do_refresh_groups_panel :: "gui_env \<Rightarrow> app \<Rightarrow> app" where
  "do_refresh_groups_panel e st =
     (let st0 = st\<lparr>groups_panel := [], group_item_checkboxes := []\<rparr>
      in case load (files st0) (TSMLuaParser (tsm_path st0)) of
           Inr (False, p1) \<Rightarrow>
             (called [PLoad False] st0)\<lparr>groups_panel := [PanelLabel Gray ''Load TSM file first'']\<rparr>
         | Inr (True, p1) \<Rightarrow>
             let p2 = parse_items p1;
                 p3 = parse_groups p2;
                 st1 = (called [PLoad True, PParseItems, PParseGroups] st0)\<lparr>current_parser := Some p3\<rparr>;
                 hierarchy = get_group_hierarchy (unicode e) p3
             in (case foldl (\<lambda>acc r. if snd acc
                                      then (case add_group_button (recursion_limit e) (key_text e)
                                                   (unicode e) (group_expand_state st1) hierarchy
                                                   p3 r 0 of
                                              (rs, ok) \<Rightarrow> (fst acc @ rs, ok))
                                      else acc)
                        ([], True) (root_groups (unicode e) hierarchy) of
                   (rows, True) \<Rightarrow>
                     show_label ''groups_count_label'' Info ''{total_groups} groups''
                       (st1\<lparr>groups_panel := rows,
                            group_item_checkboxes := checkboxes_of rows\<rparr>)
                 | (rows, False) \<Rightarrow>
                     st1\<lparr>groups_panel := rows @ [PanelLabel Error ''Error: {e}''],
                         group_item_checkboxes := checkboxes_of rows\<rparr>)
         | Inl x \<Rightarrow> (called [PLoadRaised] st0)\<lparr>groups_panel := [PanelLabel Error ''Error: {e}'']\<rparr>)"

subsection \<open>\<open>get_user_groups_list\<close>\<close>

definition get_user_groups_list :: "app \<Rightarrow> ustr list \<times> app" where
  "get_user_groups_list st =
     (case load (files st) (TSMLuaParser (tsm_path st)) of
        Inr (False, p1) \<Rightarrow> ([], called [PLoad False] st)
      | Inr (True, p1) \<Rightarrow> (sort (groups (parse_groups p1)), called [PLoad True, PParseGroups] st)
      | Inl x \<Rightarrow> ([], called [PLoadRaised] st))"

subsection \<open>\<open>run_scrape\<close>\<close>

text \<open>
  The scraper is \<open>tsm_scraper.wowhead_scraper\<close> or one of its siblings, outside this
  file: its table \<open>ALL_CATEGORIES\<close> (category type, subclass, default group), whether
  it is a \<open>WowheadScraper\<close>, the class ids behind \<open>class_map\<close>, and what scraping a
  category returns in this run, the item ids in page order or an exception.
\<close>

record scraper =
  all_categories :: "string \<rightharpoonup> (string \<times> int option \<times> ustr)"
  is_wowhead :: bool
  class_map :: "string \<rightharpoonup> int"
  fetch :: "string \<Rightarrow> py_exn + int list"

text \<open>
  The loop over the categories, with the running totals \<open>(total_found, total_new)\<close>. An
  exception leaves the loop; what was recorded before it stays recorded.
\<close>

fun scrape_loop ::
  "scraper \<Rightarrow> string list \<Rightarrow> nat \<times> nat \<Rightarrow> app \<Rightarrow> (nat \<times> nat) \<times> app \<times> py_exn option" where
  "scrape_loop sc [] tot st = (tot, st, None)"
| "scrape_loop sc (cat_name # cs) tot st =
     (case all_categories sc cat_name of
        None \<Rightarrow> scrape_loop sc cs tot st
      | Some (cat_type, subclass, grp) \<Rightarrow>
          let st1 = after (Configure ''status_label'') (log Cyan ''Scraping {cat_name}...'' st)
          in if \<not> is_wowhead sc \<and> class_map sc cat_type = None then scrape_loop sc cs tot st1
             else (case fetch sc cat_name of
                     Inl x \<Rightarrow> (tot, st1, Some x)
                   | Inr item_ids \<Rightarrow>
                       let new = filter (\<lambda>i. i \<notin> existing_ids st1) item_ids;
                           st2 = st1\<lparr>scrape_results := (scrape_results st1)
                                   (cat_name \<mapsto> \<lparr>tsm_group = grp, found = length item_ids,
                                                  new_ids = new\<rparr>)\<rparr>
                       in scrape_loop sc cs (fst tot + length item_ids, snd tot + length new) st2))"

definition run_scrape :: "scraper \<Rightarrow> string list \<Rightarrow> app \<Rightarrow> app" where
  "run_scrape sc categories st =
     (case load (files st) (TSMLuaParser (tsm_path st)) of
        Inl x \<Rightarrow>
          after (Configure ''scrape_btn'') (log Error ''Error: {e}'' (called [PLoadRaised] st))
      | Inr (ok, p1) \<Rightarrow>
          let st1 = (if ok
                     then (called [PLoad True, PParseItems] st)
                            \<lparr>existing_ids := get_existing_item_ids (parse_items p1)\<rparr>
                     else called [PLoad False] st)
          in (case scrape_loop sc categories (0, 0) st1 of
                (tot, st2, Some x) \<Rightarrow>
                  after (Configure ''scrape_btn'') (log Error ''Error: {e}'' st2)
              | (tot, st2, None) \<Rightarrow>
                  let st3 = after UpdateResultsWithCheckboxes st2;
                      st4 = log Success ''Complete: {total_found} found, {total_new} new'' st3;
                      st5 = after (Configure ''status_label'') (after (Configure ''results_summary'') st4);
                      st6 = (if snd tot > 0 then after (Configure ''import_btn'') st5 else st5);
                      st7 = after AutoSelectScrapeGroup st6
                  in after (Configure ''scrape_btn'') st7))"

subsection \<open>The manual id lists: \<open>remove_selected_items\<close>, \<open>add_manual_id\<close>, \<open>paste_id_list\<close>\<close>

text \<open>
  \<open>key.split('|', 1)\<close> unpacked into two names: the text before the first bar and the
  text after it; \<open>None\<close> is the \<open>ValueError\<close> of unpacking a text without a bar.
\<close>

definition split_first_bar :: "ustr \<Rightarrow> (ustr \<times> ustr) option" where
  "split_first_bar key =
     (if 124 \<in> set key
      then Some (takeWhile (\<lambda>c. c \<noteq> 124) key, tl (dropWhile (\<lambda>c. c \<noteq> 124) key))
      else None)"

text \<open>
  The checked boxes, split back into group path and item key, and collected by group in
  the order in which the groups first appear.
\<close>

definition items_to_remove :: "(ustr \<times> bool) list \<Rightarrow> (ustr \<times> ustr list) list option" where
  "items_to_remove boxes =
     (case those (map split_first_bar (map fst (filter snd boxes))) of
        None \<Rightarrow> None
      | Some checked \<Rightarrow>
          let gs = rev (remdups (rev (map fst checked)))
          in Some (map (\<lambda>g. (g, map snd (filter (\<lambda>gk. fst gk = g) checked))) gs))"

text \<open>
  \<open>self.current_parser.get_item_id(item_key)\<close> on each text, when the attribute
  \<open>current_parser\<close> exists; \<open>if item_id:\<close> drops both \<open>None\<close> and the id 0.
\<close>

definition extract_ids ::
  "gui_env \<Rightarrow> parser option \<Rightarrow> (ustr \<times> ustr list) list \<Rightarrow> int list" where
  "extract_ids e cp sel =
     concat (map (\<lambda>gks. List.map_filter
                          (\<lambda>t. case cp of None \<Rightarrow> None
                                | Some p \<Rightarrow> (case get_item_id (text_key e t) of None \<Rightarrow> None
                                            | Some i \<Rightarrow> if i \<noteq> 0 then Some i else None))
                          (snd gks)) sel)"

text \<open>
  \<open>confirm\<close> is the user's answer to the question "Remove ... selected item(s)?". The
  boxes are collected before the \<open>try\<close>: a \<open>ValueError\<close> there leaves the handler with
  nothing done.
\<close>

definition remove_selected_items :: "gui_env \<Rightarrow> bool \<Rightarrow> app \<Rightarrow> app" where
  "remove_selected_items e confirm st =
     (if group_item_checkboxes st = []
      then log Warning ''No items selected to remove. Expand a group and check items first.'' st
      else
        (case items_to_remove (group_item_checkboxes st) of
           None \<Rightarrow> st
         | Some sel \<Rightarrow>
             if sel = []
             then log Warning ''No items selected to remove. Check items in expanded groups first.'' st
             else if \<not> confirm then st
             else
               let all_item_ids = extract_ids e (current_parser st) sel
               in if all_item_ids = [] then log Error ''Could not extract item IDs'' st
                  else (case remove_items (writer e) all_item_ids False (tsm_path st) (files st) of
                          (d, Inl x) \<Rightarrow> log Error ''Error removing items: {e}'' (st\<lparr>files := d\<rparr>)
                        | (d, Inr r) \<Rightarrow>
                            let st1 = log Success ''Removed {removed} item(s) from TSM groups''
                                        (st\<lparr>files := d\<rparr>);
                                st2 = (if not_found r > 0
                                       then log Warning ''{not_found} item(s) not found in file'' st1
                                       else st1)
                            in load_tsm_info (refresh_groups_panel st2))))"

definition add_manual_id :: "gui_env \<Rightarrow> bool \<Rightarrow> app \<Rightarrow> app" where
  "add_manual_id e confirm st =
     (let id_text = py_strip (manual_id_entry st)
      in if remove_mode_var st \<and> id_text = [] then remove_selected_items e confirm st
         else if id_text = [] then st
         else (case py_int e id_text of
                 None \<Rightarrow> log Error ''Invalid item ID: {id_text}'' st
               | Some item_id \<Rightarrow>
                   let st1 =
                     (if remove_mode_var st
                      then (if item_id \<notin> set (manual_remove_ids st)
                            then log Warning ''Added {item_id} to remove list''
                                   (st\<lparr>manual_remove_ids := manual_remove_ids st @ [item_id]\<rparr>)
                            else st)
                      else (if item_id \<notin> set (manual_add_ids st)
                            then log Success ''Added {item_id} to import list''
                                   (st\<lparr>manual_add_ids := manual_add_ids st @ [item_id]\<rparr>)
                            else st))
                   in update_manual_status (st1\<lparr>manual_id_entry := []\<rparr>)))"

text \<open>One turn of the loop of \<open>paste_id_list\<close> over the pieces of the pasted text.\<close>

definition paste_one :: "gui_env \<Rightarrow> ustr \<Rightarrow> app \<Rightarrow> app" where
  "paste_one e id_str0 st =
     (let id_str = py_strip id_str0
      in if id_str = [] then st
         else (case py_int e id_str of
                 None \<Rightarrow> st
               | Some item_id \<Rightarrow>
                   if remove_mode_var st
                   then (if item_id \<notin> set (manual_remove_ids st)
                         then st\<lparr>manual_remove_ids := manual_remove_ids st @ [item_id]\<rparr> else st)
                   else (if item_id \<notin> set (manual_add_ids st)
                         then st\<lparr>manual_add_ids := manual_add_ids st @ [item_id]\<rparr> else st)))"

text \<open>\<open>input_text\<close> is what the dialog returns: \<open>None\<close> when it is cancelled.\<close>

definition paste_id_list :: "gui_env \<Rightarrow> ustr option \<Rightarrow> app \<Rightarrow> app" where
  "paste_id_list e input_text st =
     (case input_text of
        None \<Rightarrow> st
      | Some t \<Rightarrow>
          if t = [] then st
          else
            let id_strings = re_split_seps (py_strip t);
                st1 = fold (paste_one e) id_strings st;
                st2 = log (if remove_mode_var st1 then Warning else Success)
                        ''Added {added_count} IDs to {mode} list'' st1
            in update_manual_status st2)"

subsection \<open>\<open>rename_group_dialog\<close>\<close>

text \<open>The new path built by the dialog from the path of the group and the name typed in.\<close>

definition rename_new_path :: "ustr \<Rightarrow> ustr \<Rightarrow> ustr" where
  "rename_new_path group_path new_name =
     (let parts = split_on delim group_path
      in if length parts > 1 then join_with delim (butlast parts) @ [delim] @ new_name
         else new_name)"

definition rename_group_dialog :: "gui_env \<Rightarrow> ustr \<Rightarrow> ustr option \<Rightarrow> app \<Rightarrow> app" where
  "rename_group_dialog e group_path new_name st =
     (let parts = split_on delim group_path;
          current_name = (if parts \<noteq> [] then last parts else group_path)
      in case new_name of
           None \<Rightarrow> st
         | Some nn \<Rightarrow>
             if nn = [] \<or> nn = current_name then st
             else (case rename_group (writer e) group_path (rename_new_path group_path nn)
                          (tsm_path st) (files st) of
                     (d, Inl x) \<Rightarrow> log Error ''Rename failed: {e}'' (st\<lparr>files := d\<rparr>)
                   | (d, Inr r) \<Rightarrow>
                       if errors r \<noteq> [] then log Error ''Error: {errors[0]}'' (st\<lparr>files := d\<rparr>)
                       else refresh_groups_panel
                              (log Success ''Renamed {current_name} to {new_name}''
                                 (st\<lparr>files := d\<rparr>))))"

subsection \<open>Sequences of read-only handlers\<close>

text \<open>
  The four handlers that read the TSM file without calling the writer, and a run of
  any number of them, one after the other.
\<close>

datatype read_call =
    CallLoadTsmInfo
  | CallDoRefreshGroupsPanel
  | CallGetUserGroupsList
  | CallRunScrape scraper "string list"

fun read_step :: "gui_env \<Rightarrow> read_call \<Rightarrow> app \<Rightarrow> app" where
  "read_step e CallLoadTsmInfo st = load_tsm_info st"
| "read_step e CallDoRefreshGroupsPanel st = do_refresh_groups_panel e st"
| "read_step e CallGetUserGroupsList st = snd (get_user_groups_list st)"
| "read_step e (CallRunScrape sc categories) st = run_scrape sc categories st"

definition read_run :: "gui_env \<Rightarrow> read_call list \<Rightarrow> app \<Rightarrow> app" where
  "read_run e cs st = fold (read_step e) cs st"





text \<open>
  The two manual id lists, the property that neither holds an id twice, and the guarded
  append of the handlers: \<open>if item_id not in xs: xs.append(item_id)\<close>.
\<close>

definition manual_lists :: "app \<Rightarrow> int list \<times> int list" where
  "manual_lists st = (manual_add_ids st, manual_remove_ids st)"

definition no_duplicates :: "app \<Rightarrow> bool" where
  "no_duplicates st = (distinct (manual_add_ids st) \<and> distinct (manual_remove_ids st))"

definition append_new :: "int \<Rightarrow> int list \<Rightarrow> int list" where
  "append_new i xs = (if i \<in> set xs then xs else xs @ [i])"

text \<open>An id is present in a file when an entry of the items section carries one of its keys.\<close>

definition present :: "int \<Rightarrow> tsm_doc \<Rightarrow> bool" where
  "present i doc = list_ex (\<lambda>kg. key_matches i (fst kg)) (doc_items doc)"



section \<open>Theorems\<close>

text \<open>
  C10. After a \<open>save_config\<close> call the persisted profiles list has at most 5 entries:
  a call that writes the file writes the first 5 entries of the list in which a non-empty
  current \<open>tsm_path\<close>, not yet in the list, has been put at the front; a call whose
  directory creation or file opening raises leaves the file as it was, so the bound on the
  persisted list is kept by every call.
\<close>

theorem save_config_profiles_bounded:
  "(mkdir_ok \<and> open_ok \<longrightarrow>
      (\<exists>c. config_file (save_config mkdir_ok open_ok st) = Some c \<and>
           cfg_profiles c = Some (take 5 (with_current (tsm_path st)
              (case cfg_profiles (config st) of None \<Rightarrow> [] | Some ps \<Rightarrow> ps))) \<and>
           persisted_bounded (Some c)))
   \<and> (\<not> (mkdir_ok \<and> open_ok) \<longrightarrow>
        config_file (save_config mkdir_ok open_ok st) = config_file st)
   \<and> (persisted_bounded (config_file st) \<longrightarrow>
        persisted_bounded (config_file (save_config mkdir_ok open_ok st)))"
  by (auto simp: save_config_def persisted_bounded_def with_current_def Let_def
           split: option.splits)

theorem save_config_profiles_bounded_witness:
  "config_file (save_config True True
      \<lparr>config = \<lparr>cfg_profiles = Some [''a'', ''b'', ''c'', ''d'', ''e''], cfg_tsm_path = None,
                  cfg_window = []\<rparr>,
       tsm_path = ''f'', config_file = None\<rparr>)
   = Some \<lparr>cfg_profiles = Some [''f'', ''a'', ''b'', ''c'', ''d''], cfg_tsm_path = Some ''f'',
            cfg_window = []\<rparr>"
  using save_config_profiles_bounded [of True True
      "\<lparr>config = \<lparr>cfg_profiles = Some [''a'', ''b'', ''c'', ''d'', ''e''], cfg_tsm_path = None,
                  cfg_window = []\<rparr>,
       tsm_path = ''f'', config_file = None\<rparr>"]
  by (simp add: save_config_def with_current_def Let_def)

subsection \<open>The course of a writer call\<close>

lemma backup_path_neq: "backup_path path ts \<noteq> path"
  by (simp add: backup_path_def)

lemma writer_do_cases:
  "fst (writer_do w op dry path d) path = d path
     \<or> (\<exists>doc doc' r. d path = Some (Table doc) \<and> plan_of (default_variant w) op doc = (doc', r)
          \<and> valid w doc' \<and> backup_ok (io w)
          \<and> fst (writer_do w op dry path d) path = Some (Table doc')
          \<and> fst (writer_do w op dry path d) (backup_path path (stamp (io w))) = Some (Table doc)
          \<and> snd (writer_do w op dry path d) = Inr r)"
  by (auto simp: writer_do_def writer_call_def run_ops_def backup_path_neq
           split: option.splits file_content.splits prod.splits)

lemma writer_do_backup_fail:
  "\<not> backup_ok (io w) \<Longrightarrow> fst (writer_do w op dry path d) = d"
  by (auto simp: writer_do_def writer_call_def run_ops_def
           split: option.splits file_content.splits prod.splits)

lemma writer_do_invalid:
  "d path = Some (Table doc) \<Longrightarrow> \<not> valid w (fst (plan_of (default_variant w) op doc))
     \<Longrightarrow> fst (writer_do w op dry path d) = d"
  by (auto simp: writer_do_def writer_call_def run_ops_def
           split: option.splits file_content.splits prod.splits)

lemma writer_do_frame:
  "q \<noteq> path \<Longrightarrow> q \<noteq> backup_path path (stamp (io w))
     \<Longrightarrow> fst (writer_do w op dry path d) q = d q"
  by (auto simp: writer_do_def writer_call_def run_ops_def
           split: option.splits file_content.splits prod.splits)

lemma writer_call_order:
  "fst (writer_call plan v dry i path d) = []
   \<or> (\<exists>doc. d path = Some (Table doc) \<and>
        (fst (writer_call plan v dry i path d)
           = [WriteFile (backup_path path (stamp i)) (Table doc)]
         \<or> fst (writer_call plan v dry i path d)
           = [WriteFile (backup_path path (stamp i)) (Table doc),
              ReplaceFile path (Table (fst (plan doc)))]))"
  by (auto simp: writer_call_def split: option.splits file_content.splits prod.splits)

text \<open>
  C1. Every mutating writer operation (\<open>add_items\<close>, \<open>remove_items\<close>, \<open>add_groups\<close>,
  \<open>rename_group\<close>, \<open>delete_group\<close>) either leaves the target file as it was or commits
  fully: then the file holds the edited content and the backup, written first, holds the
  file as it was before the edit. A failed backup write and a failed validation leave the
  whole disk unchanged. The disk writes of a call are none, the backup alone, or the
  backup followed by the replacement, in this order.
\<close>

theorem writer_call_atomic:
  "(fst (writer_do w op dry path d) path = d path
     \<or> (\<exists>doc doc' r. d path = Some (Table doc) \<and> plan_of (default_variant w) op doc = (doc', r)
          \<and> valid w doc' \<and> backup_ok (io w)
          \<and> fst (writer_do w op dry path d) path = Some (Table doc')
          \<and> fst (writer_do w op dry path d) (backup_path path (stamp (io w))) = Some (Table doc)
          \<and> snd (writer_do w op dry path d) = Inr r))
   \<and> (\<not> backup_ok (io w) \<longrightarrow> fst (writer_do w op dry path d) = d)
   \<and> (\<forall>doc. d path = Some (Table doc)
          \<longrightarrow> \<not> valid w (fst (plan_of (default_variant w) op doc))
          \<longrightarrow> fst (writer_do w op dry path d) = d)
   \<and> (fst (writer_call (plan_of (default_variant w) op) (valid w) dry (io w) path d) = []
      \<or> (\<exists>doc. d path = Some (Table doc) \<and>
           (fst (writer_call (plan_of (default_variant w) op) (valid w) dry (io w) path d)
              = [WriteFile (backup_path path (stamp (io w))) (Table doc)]
            \<or> fst (writer_call (plan_of (default_variant w) op) (valid w) dry (io w) path d)
              = [WriteFile (backup_path path (stamp (io w))) (Table doc),
                 ReplaceFile path (Table (fst (plan_of (default_variant w) op doc)))])))"
  using writer_do_cases [of w op dry path d] writer_do_backup_fail [of w op dry path d]
    writer_do_invalid [of d path _ w op dry]
    writer_call_order [of "plan_of (default_variant w) op" "valid w" dry "io w" path d]
  by blast

theorem writer_call_atomic_witness:
  "fst (writer_do \<lparr>default_variant = Retail, valid = (\<lambda>x. True),
                    io = \<lparr>backup_ok = False, replace_ok = True, stamp = ''1''\<rparr>\<rparr>
         (AddGroups [[71]]) False ''f''
         [''f'' \<mapsto> Table \<lparr>doc_groups = [], doc_items = []\<rparr>])
     = [''f'' \<mapsto> Table \<lparr>doc_groups = [], doc_items = []\<rparr>]
   \<and> fst (writer_do \<lparr>default_variant = Retail, valid = (\<lambda>x. True),
                    io = \<lparr>backup_ok = True, replace_ok = True, stamp = ''1''\<rparr>\<rparr>
         (AddGroups [[71]]) False ''f''
         [''f'' \<mapsto> Table \<lparr>doc_groups = [], doc_items = []\<rparr>]) ''f''
     = Some (Table \<lparr>doc_groups = [[71]], doc_items = []\<rparr>)"
  using writer_call_atomic [of "\<lparr>default_variant = Retail, valid = (\<lambda>x. True),
                    io = \<lparr>backup_ok = False, replace_ok = True, stamp = ''1''\<rparr>\<rparr>"
         "AddGroups [[71]]" False "''f''"
         "[''f'' \<mapsto> Table \<lparr>doc_groups = [], doc_items = []\<rparr>]"]
  by (simp add: writer_do_def writer_call_def run_ops_def plan_add_groups_def
        add_group_one_def no_result_def backup_path_def)

subsection \<open>The handlers that only read\<close>


lemma files_log [simp]: "files (log lv m st) = files st"
  by (simp add: log_def)

lemma files_show_label [simp]: "files (show_label w lv m st) = files st"
  by (simp add: show_label_def)

lemma files_called [simp]: "files (called cs st) = files st"
  by (simp add: called_def)

lemma files_after [simp]: "files (after cb st) = files st"
  by (simp add: after_def)

lemma files_refresh [simp]: "files (refresh_groups_panel st) = files st"
  by (simp add: refresh_groups_panel_def)

lemma files_load_tsm_info: "files (load_tsm_info st) = files st"
  by (simp add: load_tsm_info_def Let_def split: sum.splits prod.splits bool.splits)

lemma files_do_refresh: "files (do_refresh_groups_panel e st) = files st"
  by (simp add: do_refresh_groups_panel_def Let_def
           split: sum.splits prod.splits bool.splits option.splits)

lemma files_get_user_groups: "files (snd (get_user_groups_list st)) = files st"
  by (simp add: get_user_groups_list_def split: sum.splits prod.splits bool.splits)

lemma files_scrape_loop: "files (fst (snd (scrape_loop sc cs tot st))) = files st"
  by (induction sc cs tot st rule: scrape_loop.induct)
     (auto simp: Let_def split: option.splits sum.splits prod.splits)

lemma files_run_scrape: "files (run_scrape sc cs st) = files st"
proof -
  have *: "\<And>tot s. files (fst (snd (scrape_loop sc cs tot s))) = files s"
    by (rule files_scrape_loop)
  show ?thesis
    unfolding run_scrape_def
    by (auto simp: Let_def split: sum.splits prod.splits option.splits
             dest!: arg_cong [where f = "\<lambda>x. files (fst (snd x))"] simp: *)
qed

lemma files_read_step: "files (read_step e c st) = files st"
  by (cases c)
     (simp_all add: files_load_tsm_info files_do_refresh files_get_user_groups files_run_scrape)

text \<open>
  C6. The read-only paths never modify the TSM file: after any sequence of
  \<open>load_tsm_info\<close>, \<open>_do_refresh_groups_panel\<close>, \<open>get_user_groups_list\<close> and \<open>run_scrape\<close>
  calls, with no writer call, every file of the disk is what it was before.
\<close>

theorem read_paths_keep_files: "files (read_run e cs st) = files st"
  unfolding read_run_def
  by (induction cs arbitrary: st) (simp_all add: files_read_step)

subsection \<open>Parser calls and what is shown when \<open>load\<close> fails\<close>



lemma calls_log [simp]: "calls (log lv m st) = calls st"
  by (simp add: log_def)

lemma calls_show_label [simp]: "calls (show_label w lv m st) = calls st"
  by (simp add: show_label_def)

lemma calls_called [simp]: "calls (called cs st) = calls st @ cs"
  by (simp add: called_def)

lemma calls_after [simp]: "calls (after cb st) = calls st"
  by (simp add: after_def)

lemma calls_refresh [simp]: "calls (refresh_groups_panel st) = calls st"
  by (simp add: refresh_groups_panel_def)











lemma existing_ids_log [simp]: "existing_ids (log lv m st) = existing_ids st"
  by (simp add: log_def)

lemma existing_ids_after [simp]: "existing_ids (after cb st) = existing_ids st"
  by (simp add: after_def)

lemma existing_ids_called [simp]: "existing_ids (called cs st) = existing_ids st"
  by (simp add: called_def)




subsection \<open>The new ids of a scrape\<close>

lemma scrape_results_log [simp]: "scrape_results (log lv m st) = scrape_results st"
  by (simp add: log_def)

lemma scrape_results_after [simp]: "scrape_results (after cb st) = scrape_results st"
  by (simp add: after_def)

lemma scrape_results_called [simp]: "scrape_results (called cs st) = scrape_results st"
  by (simp add: called_def)




lemma ids_of_entries:
  "set (List.map_filter (\<lambda>kg. get_item_id (fst kg)) xs)
     = {i. \<exists>k \<in> fst ` set xs. get_item_id k = Some i}"
  by (force simp: map_filter_def)



lemma ui_after [simp]: "ui (after cb st) = ui st"
  by (simp add: after_def)
lemma ui_log [simp]: "ui (log lv m st) = ui st @ [Log lv m]"
  by (simp add: log_def)
lemma ui_called [simp]: "ui (called cs st) = ui st"
  by (simp add: called_def)


















subsection \<open>What the read paths do when \<open>load\<close> fails\<close>




subsection \<open>The manual id lists\<close>

lemma ml_log [simp]: "manual_lists (log lv m st) = manual_lists st"
  by (simp add: log_def manual_lists_def)

lemma ml_show_label [simp]: "manual_lists (show_label w lv m st) = manual_lists st"
  by (simp add: show_label_def manual_lists_def)

lemma ml_called [simp]: "manual_lists (called cs st) = manual_lists st"
  by (simp add: called_def manual_lists_def)

lemma ml_after [simp]: "manual_lists (after cb st) = manual_lists st"
  by (simp add: after_def manual_lists_def)

lemma ml_refresh [simp]: "manual_lists (refresh_groups_panel st) = manual_lists st"
  by (simp add: refresh_groups_panel_def)

lemma ml_files [simp]: "manual_lists (st\<lparr>files := d\<rparr>) = manual_lists st"
  by (simp add: manual_lists_def)

lemma ml_load_tsm_info [simp]: "manual_lists (load_tsm_info st) = manual_lists st"
  by (simp add: load_tsm_info_def Let_def manual_lists_def log_def show_label_def called_def
        refresh_groups_panel_def after_def split: sum.splits prod.splits bool.splits)

lemma ml_remove_selected_items [simp]:
  "manual_lists (remove_selected_items e confirm st) = manual_lists st"
proof (cases "items_to_remove (group_item_checkboxes st)")
  case None
  then show ?thesis by (simp add: remove_selected_items_def)
next
  case (Some sel)
  let ?ids = "extract_ids e (current_parser st) sel"
  obtain d res where r: "remove_items (writer e) ?ids False (tsm_path st) (files st) = (d, res)"
    by (cases "remove_items (writer e) ?ids False (tsm_path st) (files st)") auto
  consider (a) "group_item_checkboxes st = []"
    | (b) "group_item_checkboxes st \<noteq> []" "sel = []"
    | (c) "group_item_checkboxes st \<noteq> []" "sel \<noteq> []" "\<not> confirm"
    | (d) "group_item_checkboxes st \<noteq> []" "sel \<noteq> []" "confirm" "?ids = []"
    | (e) "group_item_checkboxes st \<noteq> []" "sel \<noteq> []" "confirm" "?ids \<noteq> []"
    by blast
  then show ?thesis
  proof cases
    case a
    then show ?thesis by (simp add: remove_selected_items_def)
  next
    case b
    with Some show ?thesis by (simp add: remove_selected_items_def)
  next
    case c
    with Some show ?thesis by (simp add: remove_selected_items_def)
  next
    case d
    with Some show ?thesis by (simp add: remove_selected_items_def)
  next
    case e
    show ?thesis
    proof (cases res)
      case (Inl x)
      with e r Some show ?thesis by (simp add: remove_selected_items_def)
    next
      case (Inr rr)
      with e r Some show ?thesis by (simp add: remove_selected_items_def Let_def)
    qed
  qed
qed

lemma ml_entry [simp]: "manual_lists (st\<lparr>manual_id_entry := t\<rparr>) = manual_lists st"
  by (simp add: manual_lists_def)

lemma ml_update_manual_status [simp]: "manual_lists (update_manual_status st) = manual_lists st"
  by (simp add: update_manual_status_def Let_def manual_lists_def show_label_def)

lemma no_dup_ml: "no_duplicates st = (distinct (fst (manual_lists st)) \<and> distinct (snd (manual_lists st)))"
  by (simp add: manual_lists_def no_duplicates_def)

lemma distinct_append_new: "distinct xs \<Longrightarrow> distinct (append_new i xs)"
  by (simp add: append_new_def)

lemma paste_one_lists:
  "manual_lists (paste_one e t st) =
     (case (if py_strip t = [] then None else py_int e (py_strip t)) of
        None \<Rightarrow> manual_lists st
      | Some i \<Rightarrow> if remove_mode_var st
                  then (manual_add_ids st, append_new i (manual_remove_ids st))
                  else (append_new i (manual_add_ids st), manual_remove_ids st))"
  by (simp add: paste_one_def Let_def manual_lists_def append_new_def split: option.splits)

lemma paste_one_no_dup: "no_duplicates st \<Longrightarrow> no_duplicates (paste_one e t st)"
  unfolding no_dup_ml paste_one_lists
  by (simp add: manual_lists_def distinct_append_new split: option.splits)

lemma fold_paste_no_dup: "no_duplicates st \<Longrightarrow> no_duplicates (fold (paste_one e) ts st)"
  by (induction ts arbitrary: st) (simp_all add: paste_one_no_dup)

lemma paste_one_reject: "py_int e (py_strip t) = None \<Longrightarrow> paste_one e t st = st"
  by (simp add: paste_one_def Let_def)

lemma fold_paste_reject:
  "\<forall>t \<in> set ts. py_int e (py_strip t) = None \<Longrightarrow> fold (paste_one e) ts st = st"
  by (induction ts arbitrary: st) (simp_all add: paste_one_reject)

lemma paste_id_list_lists:
  "manual_lists (paste_id_list e t st) =
     (case t of None \<Rightarrow> manual_lists st
      | Some x \<Rightarrow> if x = [] then manual_lists st
                  else manual_lists (fold (paste_one e) (re_split_seps (py_strip x)) st))"
  by (simp add: paste_id_list_def Let_def split: option.splits)

lemma paste_id_list_no_dup: "no_duplicates st \<Longrightarrow> no_duplicates (paste_id_list e t st)"
  using fold_paste_no_dup [of st e]
  unfolding no_dup_ml paste_id_list_lists
  by (simp split: option.splits)

lemma paste_id_list_reject:
  "\<forall>s \<in> set (re_split_seps (py_strip t)). py_int e (py_strip s) = None \<Longrightarrow>
   manual_lists (paste_id_list e (Some t) st) = manual_lists st"
  by (simp add: paste_id_list_lists fold_paste_reject)

lemma add_manual_id_lists:
  "manual_lists (add_manual_id e c st) =
     (case (if py_strip (manual_id_entry st) = [] then None
            else py_int e (py_strip (manual_id_entry st))) of
        None \<Rightarrow> manual_lists st
      | Some i \<Rightarrow> if remove_mode_var st
                  then (manual_add_ids st, append_new i (manual_remove_ids st))
                  else (append_new i (manual_add_ids st), manual_remove_ids st))"
proof (cases "py_strip (manual_id_entry st) = []")
  case True
  then show ?thesis by (simp add: add_manual_id_def Let_def)
next
  case False
  show ?thesis
  proof (cases "py_int e (py_strip (manual_id_entry st))")
    case None
    with False show ?thesis by (simp add: add_manual_id_def Let_def)
  next
    case (Some i)
    with False show ?thesis
      by (simp add: add_manual_id_def Let_def append_new_def)
         (simp add: manual_lists_def log_def)
  qed
qed

lemma add_manual_id_no_dup: "no_duplicates st \<Longrightarrow> no_duplicates (add_manual_id e c st)"
  unfolding no_dup_ml add_manual_id_lists
  by (simp add: manual_lists_def distinct_append_new split: option.splits)

lemma add_manual_id_reject:
  "py_strip (manual_id_entry st) \<noteq> [] \<Longrightarrow> py_int e (py_strip (manual_id_entry st)) = None \<Longrightarrow>
   ui (add_manual_id e c st) = ui st @ [Log Error ''Invalid item ID: {id_text}'']"
  by (simp add: add_manual_id_def Let_def log_def)

text \<open>
  C9. The manual id lists never hold an id twice: they are empty at the start, and
  \<open>add_manual_id\<close> and \<open>paste_id_list\<close> keep them free of duplicates, because each
  changes a list only by appending an id that is not yet in it. Input that fails integer
  parsing changes neither list: \<open>add_manual_id\<close> logs an error, and \<open>paste_id_list\<close>
  skips the piece.
\<close>

theorem manual_ids_no_duplicates:
  "no_duplicates (app0 cfg path d)
   \<and> (no_duplicates st \<longrightarrow>
        no_duplicates (add_manual_id e c st) \<and> no_duplicates (paste_id_list e t st))
   \<and> manual_lists (add_manual_id e c st) =
       (case (if py_strip (manual_id_entry st) = [] then None
              else py_int e (py_strip (manual_id_entry st))) of
          None \<Rightarrow> manual_lists st
        | Some i \<Rightarrow> if remove_mode_var st
                    then (manual_add_ids st, append_new i (manual_remove_ids st))
                    else (append_new i (manual_add_ids st), manual_remove_ids st))
   \<and> manual_lists (paste_one e s st) =
       (case (if py_strip s = [] then None else py_int e (py_strip s)) of
          None \<Rightarrow> manual_lists st
        | Some i \<Rightarrow> if remove_mode_var st
                    then (manual_add_ids st, append_new i (manual_remove_ids st))
                    else (append_new i (manual_add_ids st), manual_remove_ids st))
   \<and> (py_strip (manual_id_entry st) \<noteq> [] \<and> py_int e (py_strip (manual_id_entry st)) = None
        \<longrightarrow> manual_lists (add_manual_id e c st) = manual_lists st
            \<and> ui (add_manual_id e c st) = ui st @ [Log Error ''Invalid item ID: {id_text}''])
   \<and> ((\<forall>s \<in> set (re_split_seps (py_strip x)). py_int e (py_strip s) = None)
        \<longrightarrow> manual_lists (paste_id_list e (Some x) st) = manual_lists st)"
proof -
  have a: "no_duplicates (app0 cfg path d)"
    by (simp add: no_duplicates_def app0_def)
  have b: "py_strip (manual_id_entry st) \<noteq> [] \<and> py_int e (py_strip (manual_id_entry st)) = None
        \<longrightarrow> manual_lists (add_manual_id e c st) = manual_lists st"
    by (simp add: add_manual_id_lists)
  show ?thesis
    using a b add_manual_id_no_dup [of st e c] paste_id_list_no_dup [of st e t]
      add_manual_id_lists [of e c st] paste_one_lists [of e s st]
      add_manual_id_reject [of st e c] paste_id_list_reject [of x e st]
    by blast
qed

theorem manual_ids_no_duplicates_witness:
  "no_duplicates
     (add_manual_id
        \<lparr>unicode = ucd_excerpt, py_int = (\<lambda>s. if s = [49, 50] then Some 12 else None),
         writer = \<lparr>default_variant = Retail, valid = (\<lambda>x. True),
                   io = \<lparr>backup_ok = True, replace_ok = True, stamp = ''1''\<rparr>\<rparr>,
         recursion_limit = 1000, key_text = (\<lambda>k. []), text_key = OtherKey\<rparr> False
        ((app0 \<lparr>cfg_profiles = None, cfg_tsm_path = None, cfg_window = []\<rparr> ''f'' Map.empty)
           \<lparr>manual_add_ids := [12], manual_id_entry := [32, 49, 50]\<rparr>))
   \<and> manual_lists
     (add_manual_id
        \<lparr>unicode = ucd_excerpt, py_int = (\<lambda>s. if s = [49, 50] then Some 12 else None),
         writer = \<lparr>default_variant = Retail, valid = (\<lambda>x. True),
                   io = \<lparr>backup_ok = True, replace_ok = True, stamp = ''1''\<rparr>\<rparr>,
         recursion_limit = 1000, key_text = (\<lambda>k. []), text_key = OtherKey\<rparr> False
        ((app0 \<lparr>cfg_profiles = None, cfg_tsm_path = None, cfg_window = []\<rparr> ''f'' Map.empty)
           \<lparr>manual_add_ids := [12], manual_id_entry := [32, 49, 50]\<rparr>)) = ([12], [])"
proof -
  let ?e = "\<lparr>unicode = ucd_excerpt, py_int = (\<lambda>s. if s = [49, 50] then Some 12 else None),
         writer = \<lparr>default_variant = Retail, valid = (\<lambda>x. True),
                   io = \<lparr>backup_ok = True, replace_ok = True, stamp = ''1''\<rparr>\<rparr>,
         recursion_limit = 1000, key_text = (\<lambda>k. []), text_key = OtherKey\<rparr>"
  let ?st = "(app0 \<lparr>cfg_profiles = None, cfg_tsm_path = None, cfg_window = []\<rparr> ''f'' Map.empty)
           \<lparr>manual_add_ids := [12], manual_id_entry := [32, 49, 50]\<rparr>"
  have h: "no_duplicates ?st"
    by (simp add: no_duplicates_def app0_def)
  have s: "py_strip [32, 49, 50] = [49, 50]"
    by (simp add: py_strip_def py_isspace_def)
  show ?thesis
    using h s manual_ids_no_duplicates [of _ _ _ ?st ?e False]
    by (simp add: app0_def append_new_def)
qed

subsection \<open>Removing items and adding groups, twice\<close>

lemma key_matches_inj: "key_matches i k \<Longrightarrow> key_matches j k \<Longrightarrow> i = j"
  by (auto simp: key_matches_def encode_def)

lemma key_matches_id: "key_matches i k \<longleftrightarrow> get_item_id k = Some i"
proof (cases k)
  case (ItemKey v n)
  then show ?thesis
    by (cases v) (auto simp: key_matches_def encode_def get_item_id_def)
next
  case (OtherKey t)
  then show ?thesis
    by (simp add: key_matches_def encode_def get_item_id_def)
qed

lemma present_ids: "present i doc \<longleftrightarrow> i \<in> doc_item_ids doc"
  by (auto simp: present_def doc_item_ids_def list_ex_iff key_matches_id ids_of_entries)

lemma remove_one_absent:
  "\<not> present i doc \<Longrightarrow> remove_one i (doc, r) = (doc, r\<lparr>not_found := not_found r + 1\<rparr>)"
  by (simp add: remove_one_def present_def)

lemma remove_one_present:
  "present i doc \<Longrightarrow>
   remove_one i (doc, r) =
     (doc\<lparr>doc_items := filter (\<lambda>kg. \<not> key_matches i (fst kg)) (doc_items doc)\<rparr>,
      r\<lparr>removed := removed r + 1\<rparr>)"
  by (simp add: remove_one_def present_def)

lemma present_after_remove:
  "present j (fst (remove_one i (doc, r))) \<longleftrightarrow> j \<noteq> i \<and> present j doc"
proof (cases "present i doc")
  case True
  have "\<And>k. key_matches j k \<Longrightarrow> j \<noteq> i \<Longrightarrow> \<not> key_matches i k"
    using key_matches_inj by blast
  then show ?thesis
    using True key_matches_inj [of i _ j]
    by (simp add: remove_one_present) (force simp: present_def list_ex_iff)
next
  case False
  then show ?thesis
    by (auto simp: remove_one_absent)
qed

lemma doc_groups_remove_one: "doc_groups (fst (remove_one i (doc, r))) = doc_groups doc"
  by (simp add: remove_one_def)

lemma fold_remove_present:
  "present j (fst (fold remove_one ids (doc, r))) \<longleftrightarrow> j \<notin> set ids \<and> present j doc"
proof (induction ids arbitrary: doc r)
  case Nil
  then show ?case by simp
next
  case (Cons i ids)
  obtain doc1 r1 where s: "remove_one i (doc, r) = (doc1, r1)"
    by (cases "remove_one i (doc, r)") auto
  have "present j doc1 \<longleftrightarrow> j \<noteq> i \<and> present j doc"
    using present_after_remove [of j i doc r] s by simp
  with Cons.IH [of doc1 r1] s show ?case by auto
qed

lemma fold_remove_absent:
  "\<forall>i \<in> set ids. \<not> present i doc \<Longrightarrow>
   fold remove_one ids (doc, r) = (doc, r\<lparr>not_found := not_found r + length ids\<rparr>)"
proof (induction ids arbitrary: r)
  case Nil
  then show ?case by simp
next
  case (Cons i ids)
  then show ?case by (simp add: remove_one_absent)
qed

lemma fold_remove_all_present:
  "distinct ids \<Longrightarrow> \<forall>i \<in> set ids. present i doc \<Longrightarrow>
   snd (fold remove_one ids (doc, r)) = r\<lparr>removed := removed r + length ids\<rparr>"
proof (induction ids arbitrary: doc r)
  case Nil
  then show ?case by simp
next
  case (Cons i ids)
  let ?doc1 = "doc\<lparr>doc_items := filter (\<lambda>kg. \<not> key_matches i (fst kg)) (doc_items doc)\<rparr>"
  have s: "remove_one i (doc, r) = (?doc1, r\<lparr>removed := removed r + 1\<rparr>)"
    using Cons.prems by (simp add: remove_one_present)
  have "\<forall>j \<in> set ids. present j ?doc1"
  proof
    fix j assume j: "j \<in> set ids"
    then have "j \<noteq> i" using Cons.prems by auto
    moreover have "present j doc" using j Cons.prems by simp
    ultimately show "present j ?doc1"
      using present_after_remove [of j i doc r] s by simp
  qed
  from Cons.IH [OF _ this, of "r\<lparr>removed := removed r + 1\<rparr>"] Cons.prems s
  show ?case by simp
qed

lemma fold_remove_counts:
  "removed (snd (fold remove_one ids (doc, r))) + not_found (snd (fold remove_one ids (doc, r)))
     = removed r + not_found r + length ids
   \<and> errors (snd (fold remove_one ids (doc, r))) = errors r"
proof (induction ids arbitrary: doc r)
  case Nil
  then show ?case by simp
next
  case (Cons i ids)
  show ?case
  proof (cases "present i doc")
    case True
    from Cons.IH [of "doc\<lparr>doc_items := filter (\<lambda>kg. \<not> key_matches i (fst kg)) (doc_items doc)\<rparr>"
                      "r\<lparr>removed := removed r + 1\<rparr>"] True
    show ?thesis by (simp add: remove_one_present)
  next
    case False
    from Cons.IH [of doc "r\<lparr>not_found := not_found r + 1\<rparr>"] False
    show ?thesis by (simp add: remove_one_absent)
  qed
qed

lemma writer_do_commit:
  "d path = Some (Table doc) \<Longrightarrow> plan_of (default_variant w) op doc = (doc', r) \<Longrightarrow> errors r = []
   \<Longrightarrow> valid w doc' \<Longrightarrow> backup_ok (io w) \<Longrightarrow> replace_ok (io w) \<Longrightarrow>
   writer_do w op False path d
     = (d(backup_path path (stamp (io w)) \<mapsto> Table doc, path \<mapsto> Table doc'), Inr r)"
  by (simp add: writer_do_def writer_call_def run_ops_def)

lemma plan_remove_errors: "errors (snd (plan_remove_items ids doc)) = []"
  using fold_remove_counts [of ids doc no_result]
  by (simp add: plan_remove_items_def no_result_def)

lemma plan_remove_sum:
  "removed (snd (plan_remove_items ids doc)) + not_found (snd (plan_remove_items ids doc))
     = length ids"
  using fold_remove_counts [of ids doc no_result]
  by (simp add: plan_remove_items_def no_result_def)

lemma plan_remove_all:
  "distinct ids \<Longrightarrow> \<forall>i \<in> set ids. i \<in> doc_item_ids doc \<Longrightarrow>
   removed (snd (plan_remove_items ids doc)) = length ids
   \<and> not_found (snd (plan_remove_items ids doc)) = 0"
  using fold_remove_all_present [of ids doc no_result]
  by (simp add: plan_remove_items_def no_result_def present_ids)

lemma plan_remove_gone:
  "i \<in> set ids \<Longrightarrow> i \<notin> doc_item_ids (fst (plan_remove_items ids doc))"
  using fold_remove_present [of i ids doc no_result]
  by (simp add: plan_remove_items_def present_ids)

lemma plan_remove_none:
  "\<forall>i \<in> set ids. i \<notin> doc_item_ids doc \<Longrightarrow>
   plan_remove_items ids doc = (doc, no_result\<lparr>not_found := length ids\<rparr>)"
  using fold_remove_absent [of ids doc no_result]
  by (simp add: plan_remove_items_def present_ids no_result_def)

lemma remove_twice:
  assumes d: "d path = Some (Table doc)"
    and dist: "distinct ids" and pres: "\<forall>i \<in> set ids. i \<in> doc_item_ids doc"
    and v: "valid w (fst (plan_remove_items ids doc))"
    and io: "backup_ok (io w)" "replace_ok (io w)"
  shows "\<exists>d1 r1 doc1 d2 r2.
           remove_items w ids False path d = (d1, Inr r1)
           \<and> removed r1 = length ids \<and> not_found r1 = 0
           \<and> d1 path = Some (Table doc1) \<and> (\<forall>i \<in> set ids. i \<notin> doc_item_ids doc1)
           \<and> remove_items w ids False path d1 = (d2, Inr r2)
           \<and> removed r2 = 0 \<and> not_found r2 = length ids"
proof -
  obtain doc1 r1 where p1: "plan_remove_items ids doc = (doc1, r1)"
    by (cases "plan_remove_items ids doc") auto
  let ?d1 = "d(backup_path path (stamp (io w)) \<mapsto> Table doc, path \<mapsto> Table doc1)"
  have e1: "errors r1 = []" using plan_remove_errors [of ids doc] p1 by simp
  have c1: "remove_items w ids False path d = (?d1, Inr r1)"
    unfolding remove_items_def
    using writer_do_commit [of d path doc w "RemoveItems ids" doc1 r1] d p1 e1 v io by simp
  have n1: "removed r1 = length ids \<and> not_found r1 = 0"
    using plan_remove_all [OF dist pres] p1 by simp
  have g1: "\<forall>i \<in> set ids. i \<notin> doc_item_ids doc1"
    using plan_remove_gone [of _ ids doc] p1 by simp
  have d1: "?d1 path = Some (Table doc1)" by simp
  let ?r2 = "no_result\<lparr>not_found := length ids\<rparr>"
  have p2: "plan_remove_items ids doc1 = (doc1, ?r2)"
    using plan_remove_none [OF g1] .
  let ?d2 = "?d1(backup_path path (stamp (io w)) \<mapsto> Table doc1, path \<mapsto> Table doc1)"
  have c2: "remove_items w ids False path ?d1 = (?d2, Inr ?r2)"
    unfolding remove_items_def
    using writer_do_commit [of ?d1 path doc1 w "RemoveItems ids" doc1 ?r2] d1 p2 v p1 io
    by (simp add: no_result_def)
  have n2: "removed ?r2 = 0 \<and> not_found ?r2 = length ids"
    by (simp add: no_result_def)
  from c1 n1 d1 g1 c2 n2 show ?thesis by blast
qed

lemma add_twice:
  assumes d: "d path = Some (Table doc)"
    and fresh: "p \<notin> set (doc_groups doc)"
    and v: "valid w (doc\<lparr>doc_groups := doc_groups doc @ [p]\<rparr>)"
    and io: "backup_ok (io w)" "replace_ok (io w)"
  shows "\<exists>d1 r1 doc1 d2 r2.
           add_groups w [p] False path d = (d1, Inr r1)
           \<and> added r1 = 1 \<and> skipped r1 = 0
           \<and> d1 path = Some (Table doc1) \<and> count_list (doc_groups doc1) p = 1
           \<and> add_groups w [p] False path d1 = (d2, Inr r2)
           \<and> added r2 = 0 \<and> skipped r2 = 1
           \<and> d2 path = Some (Table doc1)"
proof -
  let ?doc1 = "doc\<lparr>doc_groups := doc_groups doc @ [p]\<rparr>"
  let ?r1 = "no_result\<lparr>added := 1\<rparr>"
  let ?r2 = "no_result\<lparr>skipped := 1\<rparr>"
  have p1: "plan_add_groups [p] doc = (?doc1, ?r1)"
    using fresh by (simp add: plan_add_groups_def add_group_one_def no_result_def)
  have p2: "plan_add_groups [p] ?doc1 = (?doc1, ?r2)"
    by (simp add: plan_add_groups_def add_group_one_def no_result_def)
  let ?d1 = "d(backup_path path (stamp (io w)) \<mapsto> Table doc, path \<mapsto> Table ?doc1)"
  let ?d2 = "?d1(backup_path path (stamp (io w)) \<mapsto> Table ?doc1, path \<mapsto> Table ?doc1)"
  have c1: "add_groups w [p] False path d = (?d1, Inr ?r1)"
    unfolding add_groups_def
    using writer_do_commit [of d path doc w "AddGroups [p]" ?doc1 ?r1] d p1 v io
    by (simp add: no_result_def)
  have d1: "?d1 path = Some (Table ?doc1)" by simp
  have c2: "add_groups w [p] False path ?d1 = (?d2, Inr ?r2)"
    unfolding add_groups_def
    using writer_do_commit [of ?d1 path ?doc1 w "AddGroups [p]" ?doc1 ?r2] d1 p2 v io
    by (simp add: no_result_def)
  have cnt: "count_list (doc_groups ?doc1) p = 1"
    using fresh by (simp add: count_list_0_iff)
  have n: "added ?r1 = 1 \<and> skipped ?r1 = 0 \<and> added ?r2 = 0 \<and> skipped ?r2 = 1"
    by (simp add: no_result_def)
  have d2: "?d2 path = Some (Table ?doc1)" by simp
  from c1 d1 c2 cnt n d2 show ?thesis by blast
qed

lemma add_group_skip:
  "g \<in> set (doc_groups doc) \<Longrightarrow> add_group_one g (doc, r) = (doc, r\<lparr>skipped := skipped r + 1\<rparr>)"
  by (simp add: add_group_one_def)

lemma add_groups_no_dup:
  "distinct (doc_groups doc) \<Longrightarrow> distinct (doc_groups (fst (fold add_group_one ps (doc, r))))"
proof (induction ps arbitrary: doc r)
  case Nil
  then show ?case by simp
next
  case (Cons g ps)
  show ?case
  proof (cases "g \<in> set (doc_groups doc)")
    case True
    with Cons show ?thesis by (simp add: add_group_one_def)
  next
    case False
    have "distinct (doc_groups (doc\<lparr>doc_groups := doc_groups doc @ [g]\<rparr>))"
      using False Cons.prems by simp
    from Cons.IH [OF this] False show ?thesis by (simp add: add_group_one_def)
  qed
qed

text \<open>
  C3. \<open>remove_items\<close> counts every id once, as removed or as not found: an id that
  matches no entry of the file increments \<open>not_found\<close>, and the two counters add up to
  the number of ids. On a list of distinct ids that are all present in the file, a call
  that commits reports all of them removed and none not found, and the committed file
  holds none of them; a second call with the same ids reports \<open>removed = 0\<close> and
  \<open>not_found\<close> equal to the number of ids.
\<close>

theorem remove_items_counts:
  assumes "d path = Some (Table doc)"
    and "distinct ids" and "\<forall>i \<in> set ids. i \<in> doc_item_ids doc"
    and "valid w (fst (plan_remove_items ids doc))"
    and "backup_ok (io w)" and "replace_ok (io w)"
  shows "(\<exists>d1 r1 doc1 d2 r2.
           remove_items w ids False path d = (d1, Inr r1)
           \<and> removed r1 = length ids \<and> not_found r1 = 0
           \<and> d1 path = Some (Table doc1) \<and> (\<forall>i \<in> set ids. i \<notin> doc_item_ids doc1)
           \<and> remove_items w ids False path d1 = (d2, Inr r2)
           \<and> removed r2 = 0 \<and> not_found r2 = length ids)
         \<and> (j \<notin> doc_item_ids doc0
              \<longrightarrow> remove_one j (doc0, r0) = (doc0, r0\<lparr>not_found := not_found r0 + 1\<rparr>))
         \<and> removed (snd (plan_remove_items ids0 doc0))
              + not_found (snd (plan_remove_items ids0 doc0)) = length ids0"
  using remove_twice [of d path doc ids w, OF assms] remove_one_absent [of j doc0 r0] plan_remove_sum [of ids0 doc0]
  by (simp add: present_ids)

theorem remove_items_counts_witness:
  "\<exists>d1 r1 doc1 d2 r2.
     remove_items \<lparr>default_variant = Retail, valid = (\<lambda>x. True),
                    io = \<lparr>backup_ok = True, replace_ok = True, stamp = ''1''\<rparr>\<rparr> [1, 2] False ''f''
       [''f'' \<mapsto> Table \<lparr>doc_groups = [[87]],
                        doc_items = [(ItemKey Retail 1, [87]), (ItemKey Classic 2, [87])]\<rparr>]
       = (d1, Inr r1)
     \<and> removed r1 = length [1, 2 :: int] \<and> not_found r1 = 0
     \<and> d1 ''f'' = Some (Table doc1) \<and> (\<forall>i \<in> set [1, 2]. i \<notin> doc_item_ids doc1)
     \<and> remove_items \<lparr>default_variant = Retail, valid = (\<lambda>x. True),
                    io = \<lparr>backup_ok = True, replace_ok = True, stamp = ''1''\<rparr>\<rparr> [1, 2] False ''f'' d1
       = (d2, Inr r2)
     \<and> removed r2 = 0 \<and> not_found r2 = length [1, 2 :: int]"
proof -
  let ?w = "\<lparr>default_variant = Retail, valid = (\<lambda>x. True),
             io = \<lparr>backup_ok = True, replace_ok = True, stamp = ''1''\<rparr>\<rparr>"
  let ?doc = "\<lparr>doc_groups = [[87::nat]],
               doc_items = [(ItemKey Retail 1, [87::nat]), (ItemKey Classic 2, [87])]\<rparr>"
  have h1: "[''f'' \<mapsto> Table ?doc] ''f'' = Some (Table ?doc)" by simp
  have h2: "distinct [1, 2 :: int]" by simp
  have h3: "\<forall>i \<in> set [1, 2 :: int]. i \<in> doc_item_ids ?doc"
    by (simp add: doc_item_ids_def map_filter_def get_item_id_def)
  have h4: "valid ?w (fst (plan_remove_items [1, 2] ?doc))" by simp
  have h5: "backup_ok (io ?w)" "replace_ok (io ?w)" by simp_all
  from remove_items_counts [where d = "[''f'' \<mapsto> Table ?doc]" and path = "''f''" and doc = ?doc
      and ids = "[1, 2]" and w = ?w, OF h1 h2 h3 h4 h5, THEN conjunct1]
  show ?thesis .
qed

text \<open>
  C4. \<open>add_groups\<close> is idempotent per path: for a file that does not contain the group
  \<open>p\<close>, a call \<open>add_groups([p])\<close> that commits reports \<open>added = 1\<close>, \<open>skipped = 0\<close> and
  the file then holds \<open>p\<close> once; a second call with the same \<open>p\<close> reports \<open>added = 0\<close>,
  \<open>skipped = 1\<close> and leaves the groups as they are. A path already present is skipped,
  and a groups section without duplicates stays without duplicates.
\<close>

theorem add_groups_idempotent:
  assumes "d path = Some (Table doc)"
    and "p \<notin> set (doc_groups doc)"
    and "valid w (doc\<lparr>doc_groups := doc_groups doc @ [p]\<rparr>)"
    and "backup_ok (io w)" and "replace_ok (io w)"
  shows "(\<exists>d1 r1 doc1 d2 r2.
           add_groups w [p] False path d = (d1, Inr r1)
           \<and> added r1 = 1 \<and> skipped r1 = 0
           \<and> d1 path = Some (Table doc1) \<and> count_list (doc_groups doc1) p = 1
           \<and> add_groups w [p] False path d1 = (d2, Inr r2)
           \<and> added r2 = 0 \<and> skipped r2 = 1
           \<and> d2 path = Some (Table doc1))
         \<and> (g \<in> set (doc_groups doc0)
              \<longrightarrow> add_group_one g (doc0, r0) = (doc0, r0\<lparr>skipped := skipped r0 + 1\<rparr>))
         \<and> (distinct (doc_groups doc0)
              \<longrightarrow> distinct (doc_groups (fst (plan_add_groups ps doc0))))"
  using add_twice [of d path doc p w, OF assms] add_group_skip [of g doc0 r0]
    add_groups_no_dup [of doc0 ps no_result]
  by (simp add: plan_add_groups_def)

theorem add_groups_idempotent_witness:
  "\<exists>d1 r1 doc1 d2 r2.
     add_groups \<lparr>default_variant = Retail, valid = (\<lambda>x. True),
                  io = \<lparr>backup_ok = True, replace_ok = True, stamp = ''1''\<rparr>\<rparr> [[71]] False ''f''
       [''f'' \<mapsto> Table \<lparr>doc_groups = [[87]], doc_items = []\<rparr>] = (d1, Inr r1)
     \<and> added r1 = 1 \<and> skipped r1 = 0
     \<and> d1 ''f'' = Some (Table doc1) \<and> count_list (doc_groups doc1) [71] = 1
     \<and> add_groups \<lparr>default_variant = Retail, valid = (\<lambda>x. True),
                  io = \<lparr>backup_ok = True, replace_ok = True, stamp = ''1''\<rparr>\<rparr> [[71]] False ''f'' d1
       = (d2, Inr r2)
     \<and> added r2 = 0 \<and> skipped r2 = 1
     \<and> d2 ''f'' = Some (Table doc1)"
proof -
  let ?w = "\<lparr>default_variant = Retail, valid = (\<lambda>x. True),
             io = \<lparr>backup_ok = True, replace_ok = True, stamp = ''1''\<rparr>\<rparr>"
  let ?doc = "\<lparr>doc_groups = [[87::nat]], doc_items = []\<rparr>"
  have h1: "[''f'' \<mapsto> Table ?doc] ''f'' = Some (Table ?doc)" by simp
  have h2: "[71] \<notin> set (doc_groups ?doc)" by simp
  have h3: "valid ?w (?doc\<lparr>doc_groups := doc_groups ?doc @ [[71]]\<rparr>)" by simp
  have h5: "backup_ok (io ?w)" "replace_ok (io ?w)" by simp_all
  from add_groups_idempotent [where d = "[''f'' \<mapsto> Table ?doc]" and path = "''f''" and doc = ?doc
      and p = "[71]" and w = ?w, OF h1 h2 h3 h5, THEN conjunct1]
  show ?thesis .
qed

subsection \<open>Group paths and renaming\<close>

lemma split_on_ne [simp]: "split_on d s \<noteq> []"
  by (induction s) (auto split: list.splits)

lemma join_split [simp]: "join_with d (split_on d s) = s"
proof (induction s)
  case Nil
  then show ?case by simp
next
  case (Cons c cs)
  show ?case
  proof (cases "c = d")
    case True
    obtain w ws where "split_on d cs = w # ws" using split_on_ne [of d cs] by (cases "split_on d cs") auto
    with Cons True show ?thesis by simp
  next
    case False
    obtain w ws where ws: "split_on d cs = w # ws" using split_on_ne [of d cs] by (cases "split_on d cs") auto
    with Cons False show ?thesis by (cases ws) auto
  qed
qed

lemma split_on_append: "split_on d (a @ d # b) = split_on d a @ split_on d b"
proof (induction a)
  case Nil
  then show ?case by simp
next
  case (Cons c cs)
  obtain w ws where ws: "split_on d cs = w # ws" using split_on_ne [of d cs] by (cases "split_on d cs") auto
  with Cons show ?case by auto
qed

lemma split_on_single: "d \<notin> set w \<Longrightarrow> split_on d w = [w]"
  by (induction w) auto

lemma split_on_free: "w \<in> set (split_on d s) \<Longrightarrow> d \<notin> set w"
proof (induction s arbitrary: w)
  case Nil
  then show ?case by simp
next
  case (Cons c cs)
  obtain v vs where vs: "split_on d cs = v # vs" using split_on_ne [of d cs] by (cases "split_on d cs") auto
  show ?case
  proof (cases "c = d")
    case True
    with Cons show ?thesis by auto
  next
    case False
    with Cons.prems vs have "w = c # v \<or> w \<in> set vs" by auto
    then show ?thesis using Cons.IH [of v] Cons.IH [of w] vs False by auto
  qed
qed

lemma join_append:
  "xs \<noteq> [] \<Longrightarrow> ys \<noteq> [] \<Longrightarrow> join_with d (xs @ ys) = join_with d xs @ d # join_with d ys"
proof (induction xs)
  case Nil
  then show ?case by simp
next
  case (Cons x xs)
  show ?case
  proof (cases xs)
    case Nil
    with Cons.prems show ?thesis by (cases ys) auto
  next
    case (Cons x' xs')
    with Cons.IH Cons.prems show ?thesis by simp
  qed
qed

lemma split_join:
  "ws \<noteq> [] \<Longrightarrow> \<forall>w \<in> set ws. d \<notin> set w \<Longrightarrow> split_on d (join_with d ws) = ws"
proof (induction ws)
  case Nil
  then show ?case by simp
next
  case (Cons w ws)
  show ?case
  proof (cases ws)
    case Nil
    with Cons.prems show ?thesis by (simp add: split_on_single)
  next
    case (Cons w' ws')
    with Cons.IH Cons.prems have "split_on d (join_with d ws) = ws" by simp
    with Cons Cons.prems show ?thesis
      using split_on_append [of d w "join_with d ws"] by (simp add: split_on_single)
  qed
qed

lemma is_descendant_iff: "is_descendant old g \<longleftrightarrow> (\<exists>rest. g = old @ delim # rest)"
proof
  assume a: "is_descendant old g"
  let ?so = "split_on delim old" and ?sg = "split_on delim g"
  from a have l: "length ?so < length ?sg" and t: "take (length ?so) ?sg = ?so"
    by (simp_all add: is_descendant_def Let_def)
  have dne: "drop (length ?so) ?sg \<noteq> []" using l by simp
  have "g = join_with delim (take (length ?so) ?sg @ drop (length ?so) ?sg)" by simp
  also have "\<dots> = join_with delim ?so @ delim # join_with delim (drop (length ?so) ?sg)"
    using join_append [of ?so "drop (length ?so) ?sg" delim] dne t by simp
  finally show "\<exists>rest. g = old @ delim # rest" by auto
next
  assume "\<exists>rest. g = old @ delim # rest"
  then obtain rest where g: "g = old @ delim # rest" by blast
  then show "is_descendant old g"
    by (simp add: is_descendant_def Let_def split_on_append)
qed

lemma rewrite_own: "rewrite_path old new old = new"
  by (simp add: rewrite_path_def affected_def)

lemma rewrite_descendant: "rewrite_path old new (old @ delim # rest) = new @ delim # rest"
proof -
  have "affected old (old @ delim # rest)"
    using is_descendant_iff [of old "old @ delim # rest"] by (auto simp: affected_def)
  then show ?thesis
    using join_append [of "split_on delim new" "split_on delim rest" delim]
    by (simp add: rewrite_path_def split_on_append)
qed

lemma rewrite_other:
  "g \<noteq> old \<Longrightarrow> \<forall>rest. g \<noteq> old @ delim # rest \<Longrightarrow> rewrite_path old new g = g"
  by (simp add: rewrite_path_def affected_def is_descendant_iff)

lemma rename_new_path_prefix:
  "\<exists>pre. group_path = pre @ last_segment group_path
         \<and> rename_new_path group_path new_name = pre @ new_name
         \<and> (pre = [] \<or> last pre = delim)
         \<and> delim \<notin> set (last_segment group_path)"
proof -
  let ?parts = "split_on delim group_path"
  have ne: "?parts \<noteq> []" by simp
  have free: "delim \<notin> set (last ?parts)" using split_on_free [of "last ?parts" delim group_path] ne by simp
  show ?thesis
  proof (cases "length ?parts > 1")
    case True
    then have bl: "butlast ?parts \<noteq> []" by (cases ?parts) (auto split: if_splits)
    have "group_path = join_with delim (butlast ?parts @ [last ?parts])" using ne by simp
    also have "\<dots> = join_with delim (butlast ?parts) @ delim # last ?parts"
      using join_append [OF bl, of "[last ?parts]" delim] by simp
    finally have g: "group_path = (join_with delim (butlast ?parts) @ [delim]) @ last_segment group_path"
      by (simp add: last_segment_def)
    have r: "rename_new_path group_path new_name = (join_with delim (butlast ?parts) @ [delim]) @ new_name"
      using True by (simp add: rename_new_path_def Let_def)
    show ?thesis
      using g r free by (intro exI [of _ "join_with delim (butlast ?parts) @ [delim]"]) (simp add: last_segment_def)
  next
    case False
    then obtain w where w: "?parts = [w]" using ne by (cases ?parts) auto
    then have "group_path = w" using join_split [of delim group_path] by simp
    with w False free show ?thesis
      by (intro exI [of _ "[]"]) (simp add: rename_new_path_def last_segment_def Let_def)
  qed
qed

lemma rename_dialog_files:
  "new_name \<noteq> [] \<Longrightarrow> new_name \<noteq> last_segment group_path \<Longrightarrow>
   files (rename_group_dialog e group_path (Some new_name) st)
     = fst (rename_group (writer e) group_path (rename_new_path group_path new_name)
              (tsm_path st) (files st))"
proof -
  assume a: "new_name \<noteq> []" "new_name \<noteq> last_segment group_path"
  obtain d res where r: "rename_group (writer e) group_path (rename_new_path group_path new_name)
              (tsm_path st) (files st) = (d, res)"
    by (cases "rename_group (writer e) group_path (rename_new_path group_path new_name)
              (tsm_path st) (files st)") auto
  show ?thesis
  proof (cases res)
    case (Inl x)
    with a r show ?thesis
      by (simp add: rename_group_dialog_def Let_def last_segment_def)
  next
    case (Inr rr)
    with a r show ?thesis
      by (simp add: rename_group_dialog_def Let_def last_segment_def)
  qed
qed

lemma rename_group_effect:
  "fst (rename_group w old new path d) path = d path
   \<or> (\<exists>doc. d path = Some (Table doc)
        \<and> fst (rename_group w old new path d) path
            = Some (Table (fst (plan_rename_group old new doc))))"
  using writer_do_cases [of w "RenameGroup old new" False path d]
  by (auto simp: rename_group_def)

lemma rename_group_commit:
  assumes "d path = Some (Table doc)" and "valid w (fst (plan_rename_group old new doc))"
    and "backup_ok (io w)" and "replace_ok (io w)"
  shows "rename_group w old new path d
           = (d(backup_path path (stamp (io w)) \<mapsto> Table doc,
                path \<mapsto> Table (fst (plan_rename_group old new doc))),
              Inr (snd (plan_rename_group old new doc)))"
proof -
  have e: "errors (snd (plan_rename_group old new doc)) = []"
    by (simp add: plan_rename_group_def no_result_def)
  show ?thesis
    unfolding rename_group_def
    using writer_do_commit [of d path doc w "RenameGroup old new"
        "fst (plan_rename_group old new doc)" "snd (plan_rename_group old new doc)"] assms e
    by simp
qed

text \<open>
  C5. \<open>rename_group(old, new)\<close> leaves the file as it was or rewrites it: when the call
  commits, the file holds the entry of the group itself rewritten to \<open>new\<close> and the entry
  of every descendant, a path that goes on after \<open>old\<close> with a delimiter, with \<open>old\<close>
  replaced by \<open>new\<close> and what follows kept, the group paths of the item entries follow,
  and the result counts the rewritten group entries. Being a descendant is exactly this
  segment-aligned form, so a path that only starts with the characters of \<open>old\<close> is left
  as it is, like every other path. The rename dialog builds the new path from the path
  of the group by putting the new name in the place of the last segment and keeping the
  parent prefix, and calls \<open>rename_group\<close> with the two paths, so that a committed rename
  from the dialog leaves the file rewritten with that new path.
\<close>

theorem rename_group_rewrites:
  "rewrite_path old new old = new
   \<and> rewrite_path old new (old @ delim # rest) = new @ delim # rest
   \<and> (g \<noteq> old \<and> (\<forall>r. g \<noteq> old @ delim # r) \<longrightarrow> rewrite_path old new g = g)
   \<and> (is_descendant old g \<longleftrightarrow> (\<exists>r. g = old @ delim # r))
   \<and> doc_groups (fst (plan_rename_group old new doc)) = map (rewrite_path old new) (doc_groups doc)
   \<and> groups_updated (snd (plan_rename_group old new doc))
       = length (filter (\<lambda>x. x = old \<or> is_descendant old x) (doc_groups doc))
   \<and> (\<exists>pre. group_path = pre @ last_segment group_path
            \<and> rename_new_path group_path new_name = pre @ new_name
            \<and> (pre = [] \<or> last pre = delim)
            \<and> delim \<notin> set (last_segment group_path))
   \<and> (new_name \<noteq> [] \<and> new_name \<noteq> last_segment group_path \<longrightarrow>
        files (rename_group_dialog e group_path (Some new_name) st)
          = fst (rename_group (writer e) group_path (rename_new_path group_path new_name)
                   (tsm_path st) (files st)))
   \<and> (fst (rename_group w old new path d) path = d path
      \<or> (\<exists>doc0. d path = Some (Table doc0)
            \<and> fst (rename_group w old new path d) path
                = Some (Table (fst (plan_rename_group old new doc0)))))
   \<and> (d path = Some (Table doc) \<and> valid w (fst (plan_rename_group old new doc))
        \<and> backup_ok (io w) \<and> replace_ok (io w)
      \<longrightarrow> (\<exists>d1 r1 doc1.
             rename_group w old new path d = (d1, Inr r1)
             \<and> d1 path = Some (Table doc1)
             \<and> d1 (backup_path path (stamp (io w))) = Some (Table doc)
             \<and> doc_groups doc1 = map (rewrite_path old new) (doc_groups doc)
             \<and> doc_items doc1
                 = map (\<lambda>kg. (fst kg, rewrite_path old new (snd kg))) (doc_items doc)
             \<and> groups_updated r1
                 = length (filter (\<lambda>x. x = old \<or> is_descendant old x) (doc_groups doc))
             \<and> errors r1 = []))
   \<and> (new_name \<noteq> [] \<and> new_name \<noteq> last_segment group_path
        \<and> files st (tsm_path st) = Some (Table doc)
        \<and> valid (writer e)
             (fst (plan_rename_group group_path (rename_new_path group_path new_name) doc))
        \<and> backup_ok (io (writer e)) \<and> replace_ok (io (writer e))
      \<longrightarrow> files (rename_group_dialog e group_path (Some new_name) st) (tsm_path st)
            = Some (Table (fst (plan_rename_group group_path
                                  (rename_new_path group_path new_name) doc))))"
proof -
  have a: "doc_groups (fst (plan_rename_group old new doc))
             = map (rewrite_path old new) (doc_groups doc)"
    by (simp add: plan_rename_group_def)
  have b: "groups_updated (snd (plan_rename_group old new doc))
             = length (filter (\<lambda>x. x = old \<or> is_descendant old x) (doc_groups doc))"
  proof -
    have "affected old = (\<lambda>x. x = old \<or> is_descendant old x)"
      by (rule ext) (simp add: affected_def)
    then show ?thesis
      by (simp add: plan_rename_group_def no_result_def)
  qed
  have c: "d path = Some (Table doc) \<and> valid w (fst (plan_rename_group old new doc))
        \<and> backup_ok (io w) \<and> replace_ok (io w)
      \<longrightarrow> (\<exists>d1 r1 doc1.
             rename_group w old new path d = (d1, Inr r1)
             \<and> d1 path = Some (Table doc1)
             \<and> d1 (backup_path path (stamp (io w))) = Some (Table doc)
             \<and> doc_groups doc1 = map (rewrite_path old new) (doc_groups doc)
             \<and> doc_items doc1
                 = map (\<lambda>kg. (fst kg, rewrite_path old new (snd kg))) (doc_items doc)
             \<and> groups_updated r1
                 = length (filter (\<lambda>x. x = old \<or> is_descendant old x) (doc_groups doc))
             \<and> errors r1 = [])"
  proof
    assume h: "d path = Some (Table doc) \<and> valid w (fst (plan_rename_group old new doc))
        \<and> backup_ok (io w) \<and> replace_ok (io w)"
    let ?doc1 = "fst (plan_rename_group old new doc)"
    let ?r1 = "snd (plan_rename_group old new doc)"
    let ?d1 = "d(backup_path path (stamp (io w)) \<mapsto> Table doc, path \<mapsto> Table ?doc1)"
    have "rename_group w old new path d = (?d1, Inr ?r1)"
      using rename_group_commit [of d path doc w old new] h by blast
    moreover have "?d1 path = Some (Table ?doc1)" by simp
    moreover have "?d1 (backup_path path (stamp (io w))) = Some (Table doc)"
      by (simp add: backup_path_neq)
    moreover have "doc_items ?doc1
        = map (\<lambda>kg. (fst kg, rewrite_path old new (snd kg))) (doc_items doc)"
      by (simp add: plan_rename_group_def)
    moreover have "errors ?r1 = []"
      by (simp add: plan_rename_group_def no_result_def)
    ultimately show "\<exists>d1 r1 doc1.
             rename_group w old new path d = (d1, Inr r1)
             \<and> d1 path = Some (Table doc1)
             \<and> d1 (backup_path path (stamp (io w))) = Some (Table doc)
             \<and> doc_groups doc1 = map (rewrite_path old new) (doc_groups doc)
             \<and> doc_items doc1
                 = map (\<lambda>kg. (fst kg, rewrite_path old new (snd kg))) (doc_items doc)
             \<and> groups_updated r1
                 = length (filter (\<lambda>x. x = old \<or> is_descendant old x) (doc_groups doc))
             \<and> errors r1 = []"
      using a b by blast
  qed
  have f: "new_name \<noteq> [] \<and> new_name \<noteq> last_segment group_path
        \<and> files st (tsm_path st) = Some (Table doc)
        \<and> valid (writer e)
             (fst (plan_rename_group group_path (rename_new_path group_path new_name) doc))
        \<and> backup_ok (io (writer e)) \<and> replace_ok (io (writer e))
      \<longrightarrow> files (rename_group_dialog e group_path (Some new_name) st) (tsm_path st)
            = Some (Table (fst (plan_rename_group group_path
                                  (rename_new_path group_path new_name) doc)))"
    using rename_dialog_files [of new_name group_path e st]
      rename_group_commit [of "files st" "tsm_path st" doc "writer e" group_path
                              "rename_new_path group_path new_name"]
    by auto
  show ?thesis
    using a b c f rewrite_own [of old new] rewrite_descendant [of old new rest]
      rewrite_other [of g old new] is_descendant_iff [of old g]
      rename_new_path_prefix [of group_path new_name]
      rename_dialog_files [of new_name group_path e st]
      rename_group_effect [of w old new path d]
    by blast
qed

theorem rename_group_rewrites_witness:
  "\<exists>d1 r1 doc1.
     rename_group \<lparr>default_variant = Retail, valid = (\<lambda>x. True),
                    io = \<lparr>backup_ok = True, replace_ok = True, stamp = ''1''\<rparr>\<rparr>
       [65, 114, 109, 111, 114] [71, 101, 97, 114] ''f''
       [''f'' \<mapsto> Table \<lparr>doc_groups = [[65, 114, 109, 111, 114],
                                        [65, 114, 109, 111, 114, 96, 67, 108, 111, 116, 104],
                                        [65, 114, 109, 111, 114, 80, 108, 117, 115]],
                        doc_items = [(ItemKey Retail 100,
                                      [65, 114, 109, 111, 114, 96, 67, 108, 111, 116, 104])]\<rparr>]
       = (d1, Inr r1)
     \<and> d1 ''f'' = Some (Table doc1)
     \<and> doc_groups doc1 = [[71, 101, 97, 114], [71, 101, 97, 114, 96, 67, 108, 111, 116, 104],
                          [65, 114, 109, 111, 114, 80, 108, 117, 115]]
     \<and> doc_items doc1 = [(ItemKey Retail 100, [71, 101, 97, 114, 96, 67, 108, 111, 116, 104])]
     \<and> groups_updated r1 = 2"
proof -
  let ?w = "\<lparr>default_variant = Retail, valid = (\<lambda>x. True),
             io = \<lparr>backup_ok = True, replace_ok = True, stamp = ''1''\<rparr>\<rparr>"
  let ?old = "[65, 114, 109, 111, 114 :: nat]"
  let ?new = "[71, 101, 97, 114 :: nat]"
  let ?doc = "\<lparr>doc_groups = [[65, 114, 109, 111, 114],
                              [65, 114, 109, 111, 114, 96, 67, 108, 111, 116, 104],
                              [65, 114, 109, 111, 114, 80, 108, 117, 115 :: nat]],
               doc_items = [(ItemKey Retail 100,
                             [65, 114, 109, 111, 114, 96, 67, 108, 111, 116, 104 :: nat])]\<rparr>"
  have h: "[''f'' \<mapsto> Table ?doc] ''f'' = Some (Table ?doc)
           \<and> valid ?w (fst (plan_rename_group ?old ?new ?doc))
           \<and> backup_ok (io ?w) \<and> replace_ok (io ?w)"
    by simp
  have e1: "rewrite_path ?old ?new ?old = ?new"
    by (simp add: rewrite_path_def affected_def is_descendant_def delim_def Let_def)
  have e2: "rewrite_path ?old ?new [65, 114, 109, 111, 114, 96, 67, 108, 111, 116, 104]
            = [71, 101, 97, 114, 96, 67, 108, 111, 116, 104]"
    by (simp add: rewrite_path_def affected_def is_descendant_def delim_def Let_def)
  have e3: "rewrite_path ?old ?new [65, 114, 109, 111, 114, 80, 108, 117, 115]
            = [65, 114, 109, 111, 114, 80, 108, 117, 115]"
    by (simp add: rewrite_path_def affected_def is_descendant_def delim_def Let_def)
  have e4: "length (filter (\<lambda>x. x = ?old \<or> is_descendant ?old x) (doc_groups ?doc)) = 2"
    by (simp add: is_descendant_def delim_def Let_def)
  have "\<exists>d1 r1 doc1.
      rename_group ?w ?old ?new ''f'' [''f'' \<mapsto> Table ?doc] = (d1, Inr r1)
      \<and> d1 ''f'' = Some (Table doc1)
      \<and> d1 (backup_path ''f'' (stamp (io ?w))) = Some (Table ?doc)
      \<and> doc_groups doc1 = map (rewrite_path ?old ?new) (doc_groups ?doc)
      \<and> doc_items doc1 = map (\<lambda>kg. (fst kg, rewrite_path ?old ?new (snd kg))) (doc_items ?doc)
      \<and> groups_updated r1
          = length (filter (\<lambda>x. x = ?old \<or> is_descendant ?old x) (doc_groups ?doc))
      \<and> errors r1 = []"
    using h rename_group_rewrites [where old = ?old and new = ?new and w = ?w and path = "''f''"
        and d = "[''f'' \<mapsto> Table ?doc]" and doc = ?doc]
    by blast
  then obtain d1 r1 doc1 where
    r: "rename_group ?w ?old ?new ''f'' [''f'' \<mapsto> Table ?doc] = (d1, Inr r1)"
      "d1 ''f'' = Some (Table doc1)"
      "doc_groups doc1 = map (rewrite_path ?old ?new) (doc_groups ?doc)"
      "doc_items doc1 = map (\<lambda>kg. (fst kg, rewrite_path ?old ?new (snd kg))) (doc_items ?doc)"
      "groups_updated r1
          = length (filter (\<lambda>x. x = ?old \<or> is_descendant ?old x) (doc_groups ?doc))"
    by blast
  have "doc_groups doc1 = [[71, 101, 97, 114], [71, 101, 97, 114, 96, 67, 108, 111, 116, 104],
                          [65, 114, 109, 111, 114, 80, 108, 117, 115]]"
    using r(3) e1 e2 e3 by simp
  moreover have "doc_items doc1
      = [(ItemKey Retail 100, [71, 101, 97, 114, 96, 67, 108, 111, 116, 104])]"
    using r(4) e2 by simp
  moreover have "groups_updated r1 = 2"
    using r(5) e4 by simp
  ultimately show ?thesis
    using r(1,2) by blast
qed

subsection \<open>The order of siblings in the groups panel\<close>

lemma lower_from_free:
  "931 \<notin> set s \<Longrightarrow> lower_from u b s = concat (map (to_lower_full u) s)"
  by (induction s arbitrary: b) auto

lemma py_lower_free: "931 \<notin> set s \<Longrightarrow> py_lower u s = concat (map (to_lower_full u) s)"
  by (simp add: py_lower_def lower_from_free)

lemma py_lower_append:
  "931 \<notin> set (a @ b) \<Longrightarrow> py_lower u (a @ b) = py_lower u a @ py_lower u b"
  by (simp add: py_lower_free)

lemma append_le_append: "(p @ a \<le> p @ b) \<longleftrightarrow> (a \<le> (b :: nat list))"
  by (induction p) auto

lemma insort_key_cong_le:
  "\<forall>y \<in> set ys. (f x \<le> f y) = (g x \<le> g y) \<Longrightarrow> insort_key f x ys = insort_key g x ys"
  by (induction ys) auto

lemma sort_key_cong_le:
  "\<forall>x \<in> set xs. \<forall>y \<in> set xs. (f x \<le> f y) = (g x \<le> g y) \<Longrightarrow> sort_key f xs = sort_key g xs"
proof (induction xs)
  case Nil
  then show ?case by simp
next
  case (Cons x xs)
  then have ih: "sort_key f xs = sort_key g xs" by simp
  have "\<forall>y \<in> set (sort_key g xs). (f x \<le> f y) = (g x \<le> g y)"
    using Cons.prems by simp
  from insort_key_cong_le [OF this] ih show ?case by simp
qed

lemma last_segment_append:
  "pre = [] \<or> last pre = delim \<Longrightarrow> delim \<notin> set seg \<Longrightarrow> last_segment (pre @ seg) = seg"
proof (cases "pre = []")
  case True
  assume "delim \<notin> set seg"
  with True show ?thesis by (simp add: last_segment_def split_on_single)
next
  case False
  assume a: "pre = [] \<or> last pre = delim" and f: "delim \<notin> set seg"
  with False have "pre = butlast pre @ [delim]" using append_butlast_last_id [of pre] by auto
  then obtain q where q: "pre = q @ [delim]" by blast
  have "split_on delim (q @ delim # seg) = split_on delim q @ [seg]"
    using f by (simp add: split_on_append split_on_single)
  then show ?thesis
    using q by (simp add: last_segment_def)
qed

lemma siblings_order:
  assumes sib: "\<forall>c \<in> set cs. 931 \<notin> set c \<and> (\<exists>seg. c = pre @ seg \<and> delim \<notin> set seg)"
    and pre: "pre = [] \<or> last pre = delim"
  shows "sorted_lower u cs = sort_key (\<lambda>c. py_lower u (last_segment c)) cs"
  unfolding sorted_lower_def
proof (rule sort_key_cong_le, intro ballI)
  fix x y assume x: "x \<in> set cs" and y: "y \<in> set cs"
  from sib x obtain sx where sx: "x = pre @ sx" "delim \<notin> set sx" "931 \<notin> set x" by blast
  from sib y obtain sy where sy: "y = pre @ sy" "delim \<notin> set sy" "931 \<notin> set y" by blast
  have lx: "py_lower u x = py_lower u pre @ py_lower u sx"
    using sx py_lower_append [of pre sx u] by simp
  have ly: "py_lower u y = py_lower u pre @ py_lower u sy"
    using sy py_lower_append [of pre sy u] by simp
  have "last_segment x = sx" "last_segment y = sy"
    using sx sy pre last_segment_append by simp_all
  then show "(py_lower u x \<le> py_lower u y)
             = (py_lower u (last_segment x) \<le> py_lower u (last_segment y))"
    using lx ly by (simp add: append_le_append)
qed

text \<open>
  C7, the claim as stated fails: under the parent \<open>A\<close> the hierarchy lists the two
  children \<open>A`\<sigma>a\<close>, written with the final sigma U+03C2, and \<open>A`\<Sigma>\<close>, written with the
  capital sigma U+03A3. Lowered as a whole path, the capital sigma follows the cased
  letter \<open>A\<close> over the case-ignorable backquote and becomes the final sigma, so the panel
  shows \<open>A`\<Sigma>\<close> first; lowered alone, the last segment \<open>\<Sigma>\<close> becomes the small sigma
  U+03C3, and the order of the last segments puts \<open>A`\<sigma>a\<close> first.
\<close>

theorem sibling_order_counterexample:
  "shown_children ucd_excerpt [[65] \<mapsto> [[65, 96, 962, 97], [65, 96, 931]]] [65]
     = [[65, 96, 931], [65, 96, 962, 97]]
   \<and> sort_key (\<lambda>c. py_lower ucd_excerpt (last_segment c)) [[65, 96, 962, 97], [65, 96, 931]]
     = [[65, 96, 962, 97], [65, 96, 931]]"
  by (simp add: shown_children_def sorted_lower_def children_of_def py_lower_def
        handle_capital_sigma_def ucd_excerpt_def last_segment_def delim_def Let_def)

text \<open>
  C7, amended. The children shown under a parent, and the root groups, appear in the
  order of their whole paths lowered by \<open>str.lower\<close>, a stable sort. When no sibling
  path contains the capital sigma U+03A3, this is exactly the case-insensitive
  alphabetical order of their last segments, since all siblings of one parent share the
  parent path and the delimiter as their prefix; the rows are then sorted by the lowered
  last segment.
\<close>

theorem sibling_order_without_sigma:
  "((\<forall>c \<in> set (children_of h g).
        931 \<notin> set c \<and> (\<exists>seg. c = (g @ [delim]) @ seg \<and> delim \<notin> set seg))
      \<longrightarrow> shown_children u h g
            = filter (\<lambda>c. c \<noteq> g)
                (sort_key (\<lambda>c. py_lower u (last_segment c)) (children_of h g))
          \<and> sorted (map (\<lambda>c. py_lower u (last_segment c)) (shown_children u h g)))
   \<and> ((\<forall>c \<in> set (children_of h []). 931 \<notin> set c \<and> delim \<notin> set c)
      \<longrightarrow> root_groups u h = sort_key (\<lambda>c. py_lower u (last_segment c)) (children_of h [])
          \<and> sorted (map (\<lambda>c. py_lower u (last_segment c)) (root_groups u h)))"
proof (intro conjI impI)
  assume a: "\<forall>c \<in> set (children_of h g).
        931 \<notin> set c \<and> (\<exists>seg. c = (g @ [delim]) @ seg \<and> delim \<notin> set seg)"
  have s: "sorted_lower u (children_of h g)
           = sort_key (\<lambda>c. py_lower u (last_segment c)) (children_of h g)"
    by (rule siblings_order [where pre = "g @ [delim]"]) (use a in simp_all)
  then show "shown_children u h g
            = filter (\<lambda>c. c \<noteq> g)
                (sort_key (\<lambda>c. py_lower u (last_segment c)) (children_of h g))"
    by (simp add: shown_children_def)
  show "sorted (map (\<lambda>c. py_lower u (last_segment c)) (shown_children u h g))"
    using s sorted_sort_key [of "\<lambda>c. py_lower u (last_segment c)" "children_of h g"]
    by (simp add: shown_children_def sorted_filter)
next
  assume a: "\<forall>c \<in> set (children_of h []). 931 \<notin> set c \<and> delim \<notin> set c"
  have s: "sorted_lower u (children_of h [])
           = sort_key (\<lambda>c. py_lower u (last_segment c)) (children_of h [])"
    by (rule siblings_order [where pre = "[]"]) (use a in simp_all)
  then show "root_groups u h = sort_key (\<lambda>c. py_lower u (last_segment c)) (children_of h [])"
    by (simp add: root_groups_def)
  show "sorted (map (\<lambda>c. py_lower u (last_segment c)) (root_groups u h))"
    using s sorted_sort_key [of "\<lambda>c. py_lower u (last_segment c)" "children_of h []"]
    by (simp add: root_groups_def)
qed

theorem sibling_order_without_sigma_witness:
  "shown_children ucd_excerpt [[65] \<mapsto> [[65, 96, 67], [65, 96, 98]]] [65]
     = [[65, 96, 98], [65, 96, 67]]
   \<and> filter (\<lambda>c. c \<noteq> [65])
       (sort_key (\<lambda>c. py_lower ucd_excerpt (last_segment c))
          (children_of [[65] \<mapsto> [[65, 96, 67], [65, 96, 98]]] [65]))
     = [[65, 96, 98], [65, 96, 67]]"
proof -
  let ?h = "[[65] \<mapsto> [[65, 96, 67], [65, 96, 98 :: nat]]]"
  have h: "\<forall>c \<in> set (children_of ?h [65]).
             931 \<notin> set c \<and> (\<exists>seg. c = ([65] @ [delim]) @ seg \<and> delim \<notin> set seg)"
    by (simp add: children_of_def delim_def)
  have v: "shown_children ucd_excerpt ?h [65] = [[65, 96, 98], [65, 96, 67]]"
    by (simp add: shown_children_def sorted_lower_def children_of_def py_lower_def
          ucd_excerpt_def)
  from sibling_order_without_sigma [of ?h "[65]" ucd_excerpt, THEN conjunct1, THEN mp, OF h] v
  show ?thesis by simp
qed

end
